theory Spec2Isabelle
  imports Main
begin

section \<open>Data model\<close>

text \<open>
  The development follows \<^verbatim>\<open>src/lib/SunoApi.js\<close> (the session class, the failover
  decorator, the polling loops, \<^verbatim>\<open>sleep\<close>) and, for the feed guard of the TypeScript
  variant, \<^verbatim>\<open>src/lib/SunoApi.ts\<close> (\<^verbatim>\<open>change_Account\<close>).

  Every awaited call is a step on an explicit \<open>world\<close>: the clock read by
  \<^verbatim>\<open>Date.now()\<close>, the number of exchanges made so far, the log of effects, the
  store of session objects (a session is mutated in place by \<^verbatim>\<open>keepAlive\<close>, and
  the decorator hands \<^verbatim>\<open>this\<close> on, so sessions are addressed by reference), the two
  module variables and the credential sheet. What the third-party service answers is
  not under the program's control: it is the parameter \<open>upstream\<close>, a table of
  answers indexed by the number of the exchange, so that the same request may be
  answered differently each time it is made.
\<close>

type_synonym cookie = string
type_synonym ref = nat
type_synonym data = string

datatype error = Error string | TypeError | AxiosError

datatype 'a reply = Rejected | Reply 'a

datatype method_name = Generate | Concatenate | Custom_generate | GenerateLyrics | ExtendAudio

record session =
  client :: "cookie option"
  clerkVersion :: "string option"
  sid :: "string option"
  currentToken :: "string option"
  wrapped :: "method_name \<Rightarrow> bool"

record license =
  account :: string
  licenseKey :: string

record billing =
  total_credits_left :: "int option"
  b_period :: "string option"
  b_monthly_limit :: "int option"
  b_monthly_usage :: "int option"

record credits =
  credits_left :: "int option"
  period :: "string option"
  monthly_limit :: "int option"
  monthly_usage :: "int option"

record payload =
  make_instrumental :: bool
  mv :: string
  p_prompt :: string
  p_tags :: "string option"
  p_title :: "string option"
  p_negative_tags :: "string option"
  p_gpt_description_prompt :: "string option"

record extend_payload =
  continue_clip_id :: string
  continue_at :: string
  e_mv :: string
  e_prompt :: string
  e_tags :: string
  e_title :: string

record metadata =
  m_prompt :: "string option"
  m_gpt_description_prompt :: "string option"
  m_type :: "string option"
  m_tags :: "string option"
  m_negative_tags :: "string option"
  m_duration :: "string option"
  m_error_message :: "string option"

record clip =
  c_id :: string
  c_title :: "string option"
  c_image_url :: "string option"
  c_audio_url :: "string option"
  c_video_url :: "string option"
  c_created_at :: string
  c_model_name :: string
  c_status :: string
  c_metadata :: metadata

record audio_info =
  a_id :: string
  a_title :: "string option"
  a_image_url :: "string option"
  a_lyric :: "string option"
  a_audio_url :: "string option"
  a_video_url :: "string option"
  a_created_at :: string
  a_model_name :: string
  status :: string
  a_gpt_description_prompt :: "string option"
  a_prompt :: "string option"
  a_type :: "string option"
  a_tags :: "string option"
  a_negative_tags :: "string option"
  a_duration :: "string option"
  a_error_message :: "string option"

record lyrics =
  l_status :: "string option"
  l_title :: "string option"
  l_text :: "string option"

datatype request =
    ClerkJsPackage
  | ClerkClient "string option"
  | ClerkTokens string "string option"
  | BillingInfo
  | GenerateV2 payload
  | ExtendV2 extend_payload
  | ConcatV2 string
  | LyricsPost string
  | LyricsGet string
  | Feed "string list option"

datatype event =
    Http cookie request
  | Slept nat
  | SheetGetKeys
  | SheetGetActive
  | SheetSetActive string string

text \<open>
  The service. \<open>latency u n\<close> is the time in milliseconds the \<open>n\<close>-th exchange takes,
  \<open>math_random u n\<close> selects the value drawn when the \<open>n\<close>-th step is a call of
  \<^verbatim>\<open>Math.random()\<close>; the other fields are the endpoints, each given the number of
  the exchange, the \<^verbatim>\<open>Cookie\<close> header, the bearer token the interceptor adds, and the
  parameters of the request. \<open>Rejected\<close> is a rejected axios promise (network error,
  or a status outside 2xx); \<open>Reply\<close> carries the fields of the JSON body that the
  program reads, \<open>None\<close> for a field that is absent.
\<close>

record upstream =
  latency :: "nat \<Rightarrow> nat"
  math_random :: "nat \<Rightarrow> nat"
  ep_clerk_js :: "nat \<Rightarrow> cookie \<Rightarrow> string option reply"
  ep_client :: "nat \<Rightarrow> cookie \<Rightarrow> string option \<Rightarrow> string option reply"
  ep_tokens :: "nat \<Rightarrow> cookie \<Rightarrow> string \<Rightarrow> string option \<Rightarrow> string option reply"
  ep_billing :: "nat \<Rightarrow> cookie \<Rightarrow> string option \<Rightarrow> billing reply"
  ep_generate :: "nat \<Rightarrow> cookie \<Rightarrow> string option \<Rightarrow> payload \<Rightarrow> (nat \<times> clip list) reply"
  ep_extend :: "nat \<Rightarrow> cookie \<Rightarrow> string option \<Rightarrow> extend_payload \<Rightarrow> data reply"
  ep_concat :: "nat \<Rightarrow> cookie \<Rightarrow> string option \<Rightarrow> string \<Rightarrow> (nat \<times> data) reply"
  ep_lyrics_post :: "nat \<Rightarrow> cookie \<Rightarrow> string option \<Rightarrow> string \<Rightarrow> string reply"
  ep_lyrics_get :: "nat \<Rightarrow> cookie \<Rightarrow> string option \<Rightarrow> string \<Rightarrow> lyrics reply"
  ep_feed :: "nat \<Rightarrow> cookie \<Rightarrow> string option \<Rightarrow> string list option \<Rightarrow> clip list reply"

record world =
  clock :: nat
  ticks :: nat
  trace :: "event list"
  heap :: "ref \<Rightarrow> session"
  fresh :: ref
  sunoApi :: "ref option"
  activeSunoLicense :: "license option"
  store_keys :: "license list"
  store_active :: "license option"
  store_writes :: "license list"

section \<open>Primitives\<close>

text \<open>JavaScript truthiness of a string-valued field: absent and empty are falsy.\<close>

fun truthy :: "string option \<Rightarrow> bool" where
  "truthy None = False"
| "truthy (Some s) = (s \<noteq> [])"

text \<open>
  Comparison of a possibly absent number with a number: \<^verbatim>\<open>undefined < n\<close> and
  \<^verbatim>\<open>undefined >= n\<close> are both false.
\<close>

fun js_lt :: "int option \<Rightarrow> int \<Rightarrow> bool" where
  "js_lt None n = False"
| "js_lt (Some x) n = (x < n)"

fun js_ge :: "int option \<Rightarrow> int \<Rightarrow> bool" where
  "js_ge None n = False"
| "js_ge (Some x) n = (n \<le> x)"

text \<open>The request interceptor of \<^verbatim>\<open>init\<close>: the header is set when the token is truthy.\<close>

definition bearer :: "session \<Rightarrow> string option" where
  "bearer s = (if truthy (currentToken s) then currentToken s else None)"

text \<open>
  One exchange with the service: the clock advances by its latency, or by the timeout
  when one is given and the answer takes longer, in which case axios rejects. Every
  exchange of the model settles, after \<open>latency u n\<close> milliseconds. A request that is
  never answered and has no timeout (the token renewal, the quota query and the
  submissions have none) leaves the caller waiting for ever; such a service is outside
  the model, so what is proved below about the time a call takes, or about a call
  returning, is proved of services all of whose exchanges settle.
\<close>

definition exchange ::
  "upstream \<Rightarrow> nat option \<Rightarrow> cookie \<Rightarrow> request \<Rightarrow> (nat \<Rightarrow> 'a reply) \<Rightarrow> world \<Rightarrow> 'a reply \<times> world" where
  "exchange u timeout c rq ep w =
     (let n = ticks w; d = latency u n in
      case timeout of
        None \<Rightarrow> (ep n, w\<lparr>clock := clock w + d, ticks := Suc n, trace := trace w @ [Http c rq]\<rparr>)
      | Some t \<Rightarrow>
          if t < d
          then (Rejected, w\<lparr>clock := clock w + t, ticks := Suc n, trace := trace w @ [Http c rq]\<rparr>)
          else (ep n, w\<lparr>clock := clock w + d, ticks := Suc n, trace := trace w @ [Http c rq]\<rparr>))"

text \<open>
  \<^verbatim>\<open>sleep(x, y)\<close>: \<open>x\<close> seconds, or a whole number of seconds drawn at random when
  a second, different bound is given. \<^verbatim>\<open>Math.floor(Math.random() * (max - min + 1) + min)\<close>
  is evaluated in double precision: it takes every integer from \<open>min\<close> to \<open>max\<close>, and
  with the two pairs of bounds the program uses also \<open>max + 1\<close>, when \<^verbatim>\<open>Math.random()\<close>
  returns the largest double below 1: with the bounds 3 and 6 the sum is then
  \<^verbatim>\<open>7 - 2^-51\<close>, a tie that rounds to 7, and with 1 and 2 it is \<^verbatim>\<open>3 - 2^-52\<close>, a tie
  that rounds to 3. The draw is modelled by the integer it selects, and the model
  lets it select \<open>max + 1\<close> as well, for every pair of bounds.
\<close>

definition sleep :: "upstream \<Rightarrow> nat \<Rightarrow> nat option \<Rightarrow> world \<Rightarrow> world" where
  "sleep u x y w =
     (case y of
        None \<Rightarrow> w\<lparr>clock := clock w + x * 1000, trace := trace w @ [Slept (x * 1000)]\<rparr>
      | Some y' \<Rightarrow>
          if y' \<noteq> x
          then (let mn = min x y'; mx = max x y';
                    timeout = (mn + math_random u (ticks w) mod (mx - mn + 2)) * 1000
                in w\<lparr>clock := clock w + timeout, ticks := Suc (ticks w),
                     trace := trace w @ [Slept timeout]\<rparr>)
          else w\<lparr>clock := clock w + x * 1000, trace := trace w @ [Slept (x * 1000)]\<rparr>)"

section \<open>The credential sheet\<close>

text \<open>
  Modelled from the spec: \<^verbatim>\<open>GoogleSheetService\<close> is required by the module but is not
  part of the sources. The spec gives its interface: an ordered list of candidate
  credentials, the credential that is active, and a write that makes a credential the
  active one.
\<close>

definition getSunoLicenseKeys :: "world \<Rightarrow> license list \<times> world" where
  "getSunoLicenseKeys w = (store_keys w, w\<lparr>trace := trace w @ [SheetGetKeys]\<rparr>)"

definition getSunoActiveLicense :: "world \<Rightarrow> license option \<times> world" where
  "getSunoActiveLicense w = (store_active w, w\<lparr>trace := trace w @ [SheetGetActive]\<rparr>)"

definition setSunoActiveLicense :: "string \<Rightarrow> string \<Rightarrow> world \<Rightarrow> world" where
  "setSunoActiveLicense acc key w =
     w\<lparr>store_active := Some \<lparr>account = acc, licenseKey = key\<rparr>,
       store_writes := store_writes w @ [\<lparr>account = acc, licenseKey = key\<rparr>],
       trace := trace w @ [SheetSetActive acc key]\<rparr>"

section \<open>The session\<close>

definition blank :: session where
  "blank = \<lparr>client = None, clerkVersion = None, sid = None, currentToken = None,
            wrapped = (\<lambda>_. False)\<rparr>"

definition new_SunoApi :: "world \<Rightarrow> ref \<times> world" where
  "new_SunoApi w = (fresh w, w\<lparr>heap := (heap w)(fresh w := blank), fresh := Suc (fresh w)\<rparr>)"

definition setupBindings :: "ref \<Rightarrow> world \<Rightarrow> world" where
  "setupBindings this w =
     w\<lparr>heap := (heap w)(this := (heap w this)\<lparr>wrapped :=
          (\<lambda>m. m = Generate \<or> m = Concatenate \<or> m = Custom_generate \<or> m = GenerateLyrics
                \<or> m = ExtendAudio \<or> wrapped (heap w this) m)\<rparr>)\<rparr>"

definition getClerkLatestVersion :: "upstream \<Rightarrow> ref \<Rightarrow> world \<Rightarrow> (error + unit) \<times> world" where
  "getClerkLatestVersion u this w =
     (case client (heap w this) of
        None \<Rightarrow> (Inl TypeError, w)
      | Some c \<Rightarrow>
         (case exchange u None c ClerkJsPackage (\<lambda>n. ep_clerk_js u n c) w of
            (Rejected, w1) \<Rightarrow> (Inl AxiosError, w1)
          | (Reply latest, w1) \<Rightarrow>
              if \<not> truthy latest
              then (Inl (Error ''Failed to get clerk version info, Please try again later''), w1)
              else (Inr (), w1\<lparr>heap := (heap w1)(this := (heap w1 this)\<lparr>clerkVersion := latest\<rparr>)\<rparr>)))"

definition getAuthToken :: "upstream \<Rightarrow> ref \<Rightarrow> world \<Rightarrow> (error + unit) \<times> world" where
  "getAuthToken u this w =
     (case client (heap w this) of
        None \<Rightarrow> (Inl TypeError, w)
      | Some c \<Rightarrow>
         (let v = clerkVersion (heap w this) in
          case exchange u None c (ClerkClient v) (\<lambda>n. ep_client u n c v) w of
            (Rejected, w1) \<Rightarrow> (Inl AxiosError, w1)
          | (Reply last_active_session_id, w1) \<Rightarrow>
              if \<not> truthy last_active_session_id
              then (Inl (Error ''Failed to get session id, you may need to update the SUNO_COOKIE''), w1)
              else (Inr (), w1\<lparr>heap := (heap w1)(this := (heap w1 this)\<lparr>sid := last_active_session_id\<rparr>)\<rparr>)))"

definition keepAlive :: "upstream \<Rightarrow> bool \<Rightarrow> ref \<Rightarrow> world \<Rightarrow> (error + unit) \<times> world" where
  "keepAlive u isWait this w =
     (case sid (heap w this) of
        None \<Rightarrow> (Inl (Error ''Session ID is not set. Cannot renew token.''), w)
      | Some s \<Rightarrow>
          if s = [] then (Inl (Error ''Session ID is not set. Cannot renew token.''), w)
          else
           (case client (heap w this) of
              None \<Rightarrow> (Inl TypeError, w)
            | Some c \<Rightarrow>
               (let v = clerkVersion (heap w this) in
                case exchange u None c (ClerkTokens s v) (\<lambda>n. ep_tokens u n c s v) w of
                  (Rejected, w1) \<Rightarrow> (Inl AxiosError, w1)
                | (Reply jwt, w1) \<Rightarrow>
                    (let w2 = (if isWait then sleep u 1 (Some 2) w1 else w1) in
                     (Inr (), w2\<lparr>heap := (heap w2)(this := (heap w2 this)\<lparr>currentToken := jwt\<rparr>)\<rparr>)))))"

definition init :: "upstream \<Rightarrow> cookie \<Rightarrow> ref \<Rightarrow> world \<Rightarrow> (error + ref) \<times> world" where
  "init u cookie this w =
     (let w0 = setupBindings this w;
          w1 = w0\<lparr>heap := (heap w0)(this := (heap w0 this)\<lparr>client := Some cookie\<rparr>)\<rparr> in
      case getClerkLatestVersion u this w1 of
        (Inl e, w2) \<Rightarrow> (Inl e, w2)
      | (Inr _, w2) \<Rightarrow>
         (case getAuthToken u this w2 of
            (Inl e, w3) \<Rightarrow> (Inl e, w3)
          | (Inr _, w3) \<Rightarrow>
             (case keepAlive u False this w3 of
                (Inl e, w4) \<Rightarrow> (Inl e, w4)
              | (Inr _, w4) \<Rightarrow> (Inr this, w4))))"

definition get_credits :: "upstream \<Rightarrow> bool \<Rightarrow> ref \<Rightarrow> world \<Rightarrow> (error + credits) \<times> world" where
  "get_credits u alive this w =
     (case (if \<not> alive then keepAlive u alive this w else (Inr (), w)) of
        (Inl e, w1) \<Rightarrow> (Inl e, w1)
      | (Inr _, w1) \<Rightarrow>
         (case client (heap w1 this) of
            None \<Rightarrow> (Inl TypeError, w1)
          | Some c \<Rightarrow>
             (case exchange u None c BillingInfo (\<lambda>n. ep_billing u n c (bearer (heap w1 this))) w1 of
                (Rejected, w2) \<Rightarrow> (Inl AxiosError, w2)
              | (Reply b, w2) \<Rightarrow>
                  (Inr \<lparr>credits_left = total_credits_left b, period = b_period b,
                        monthly_limit = b_monthly_limit b, monthly_usage = b_monthly_usage b\<rparr>, w2))))"

text \<open>
  \<^verbatim>\<open>newSunoApi(cookie)\<close>: with a falsy cookie the active license is read from the sheet
  and its key is used; reading \<^verbatim>\<open>.account\<close> of an absent license is a TypeError.
\<close>

definition newSunoApi :: "upstream \<Rightarrow> cookie \<Rightarrow> world \<Rightarrow> (error + ref) \<times> world" where
  "newSunoApi u cookie w =
     (if cookie = []
      then (case getSunoActiveLicense w of
              (None, w1) \<Rightarrow> (Inl TypeError, w1\<lparr>activeSunoLicense := None\<rparr>)
            | (Some lic, w1) \<Rightarrow>
                (let w2 = w1\<lparr>activeSunoLicense := Some lic\<rparr>;
                     (r, w3) = new_SunoApi w2
                 in init u (licenseKey lic) r w3))
      else (let (r, w1) = new_SunoApi w in init u cookie r w1))"

section \<open>Operations\<close>

definition DEFAULT_MODEL :: string where
  "DEFAULT_MODEL = ''chirp-v3-5''"

text \<open>
  \<^verbatim>\<open>parseLyrics\<close>: the lines of the prompt that are not blank, joined by newlines.
  \<^verbatim>\<open>trim\<close> is taken over the ASCII white space.
\<close>

fun split_on :: "char \<Rightarrow> string \<Rightarrow> string list" where
  "split_on d [] = [[]]"
| "split_on d (c # cs) =
     (if c = d then [] # split_on d cs
      else (case split_on d cs of [] \<Rightarrow> [[c]] | l # ls \<Rightarrow> (c # l) # ls))"

fun join :: "string \<Rightarrow> string list \<Rightarrow> string" where
  "join d [] = []"
| "join d [l] = l"
| "join d (l # ls) = l @ d @ join d ls"

definition is_space :: "char \<Rightarrow> bool" where
  "is_space c = (c \<in> set [CHR '' '', CHR 0x09, CHR 0x0A, CHR 0x0B, CHR 0x0C, CHR 0x0D])"

definition parseLyrics :: "string \<Rightarrow> string" where
  "parseLyrics prompt =
     join [CHR 0x0A] (filter (\<lambda>line. \<not> list_all is_space line) (split_on (CHR 0x0A) prompt))"

definition feed_info :: "clip \<Rightarrow> audio_info" where
  "feed_info audio =
     \<lparr>a_id = c_id audio, a_title = c_title audio, a_image_url = c_image_url audio,
      a_lyric = (case m_prompt (c_metadata audio) of
                   None \<Rightarrow> Some []
                 | Some p \<Rightarrow> if p = [] then Some [] else Some (parseLyrics p)),
      a_audio_url = c_audio_url audio, a_video_url = c_video_url audio,
      a_created_at = c_created_at audio, a_model_name = c_model_name audio,
      status = c_status audio,
      a_gpt_description_prompt = m_gpt_description_prompt (c_metadata audio),
      a_prompt = m_prompt (c_metadata audio), a_type = m_type (c_metadata audio),
      a_tags = m_tags (c_metadata audio), a_negative_tags = None,
      a_duration = m_duration (c_metadata audio),
      a_error_message = m_error_message (c_metadata audio)\<rparr>"

definition clip_info :: "clip \<Rightarrow> audio_info" where
  "clip_info audio =
     \<lparr>a_id = c_id audio, a_title = c_title audio, a_image_url = c_image_url audio,
      a_lyric = m_prompt (c_metadata audio),
      a_audio_url = c_audio_url audio, a_video_url = c_video_url audio,
      a_created_at = c_created_at audio, a_model_name = c_model_name audio,
      status = c_status audio,
      a_gpt_description_prompt = m_gpt_description_prompt (c_metadata audio),
      a_prompt = m_prompt (c_metadata audio), a_type = m_type (c_metadata audio),
      a_tags = m_tags (c_metadata audio), a_negative_tags = m_negative_tags (c_metadata audio),
      a_duration = m_duration (c_metadata audio), a_error_message = None\<rparr>"

text \<open>\<^verbatim>\<open>get(songIds)\<close>: the status fetch. An array of ids, empty or not, is truthy.\<close>

definition get :: "upstream \<Rightarrow> string list option \<Rightarrow> ref \<Rightarrow> world \<Rightarrow> (error + audio_info list) \<times> world" where
  "get u songIds this w =
     (case keepAlive u False this w of
        (Inl e, w1) \<Rightarrow> (Inl e, w1)
      | (Inr _, w1) \<Rightarrow>
         (case client (heap w1 this) of
            None \<Rightarrow> (Inl TypeError, w1)
          | Some c \<Rightarrow>
             (case exchange u (Some 3000) c (Feed songIds)
                     (\<lambda>n. ep_feed u n c (bearer (heap w1 this)) songIds) w1 of
                (Rejected, w2) \<Rightarrow> (Inl AxiosError, w2)
              | (Reply audios, w2) \<Rightarrow> (Inr (map feed_info audios), w2))))"

section \<open>Waiting for the audio\<close>

text \<open>
  What a method of a session may change: time passes, exchanges are counted, and of the
  session only the token; the sheet, the module variables and the other sessions are
  left as they are.
\<close>

definition renews :: "ref \<Rightarrow> world \<Rightarrow> world \<Rightarrow> bool" where
  "renews this w w' \<longleftrightarrow>
     clock w \<le> clock w' \<and> ticks w \<le> ticks w' \<and> fresh w' = fresh w \<and> sunoApi w' = sunoApi w \<and>
     activeSunoLicense w' = activeSunoLicense w \<and> store_keys w' = store_keys w \<and>
     store_active w' = store_active w \<and> store_writes w' = store_writes w \<and>
     (\<forall>r. r \<noteq> this \<longrightarrow> heap w' r = heap w r) \<and>
     client (heap w' this) = client (heap w this) \<and> sid (heap w' this) = sid (heap w this) \<and>
     clerkVersion (heap w' this) = clerkVersion (heap w this) \<and>
     wrapped (heap w' this) = wrapped (heap w this)"

text \<open>
  The \<^verbatim>\<open>while\<close> loop of \<^verbatim>\<open>generateSongs\<close>. As long as the exchanges of a round
  settle, which they do in the model, the loop ends: every round sleeps at least three
  seconds and the clock is compared with the start time at the head of each round.
\<close>

function wait_audio_loop ::
  "upstream \<Rightarrow> ref \<Rightarrow> string list \<Rightarrow> nat \<Rightarrow> audio_info list \<Rightarrow> world \<Rightarrow> (error + audio_info list) \<times> world" where
  "wait_audio_loop u this songIds startTime lastResponse w =
     (if clock w - startTime < 100000
      then (case get u (Some songIds) this w of
              (Inl e, w1) \<Rightarrow> (Inl e, w1)
            | (Inr response, w1) \<Rightarrow>
                if list_all (\<lambda>audio. status audio = ''streaming'' \<or> status audio = ''complete'') response
                   \<or> list_all (\<lambda>audio. status audio = ''error'') response
                then (Inr response, w1)
                else (case keepAlive u True this (sleep u 3 (Some 6) w1) of
                        (Inl e, w3) \<Rightarrow> (Inl e, w3)
                      | (Inr _, w3) \<Rightarrow> wait_audio_loop u this songIds startTime response w3))
      else (Inr lastResponse, w))"
  by pat_completeness auto

lemma renews_refl: "renews this w w"
  by (simp add: renews_def)

lemma renews_trans: "renews this w w1 \<Longrightarrow> renews this w1 w2 \<Longrightarrow> renews this w w2"
  by (simp add: renews_def)

lemma exchange_renews: "exchange u t c rq ep w = (r, w') \<Longrightarrow> renews this w w'"
  by (auto simp: exchange_def renews_def Let_def split: option.splits if_splits)

lemma sleep_renews: "renews this w (sleep u x y w)"
  by (simp add: sleep_def renews_def Let_def split: option.splits)

lemma token_renews: "renews this w (w\<lparr>heap := (heap w)(this := (heap w this)\<lparr>currentToken := t\<rparr>)\<rparr>)"
  by (simp add: renews_def)

lemma keepAlive_renews: "keepAlive u b this w = (r, w') \<Longrightarrow> renews this w w'"
  unfolding keepAlive_def Let_def
  by (auto split: option.splits if_splits prod.splits reply.splits
      intro: renews_refl exchange_renews renews_trans [OF exchange_renews token_renews]
        renews_trans [OF exchange_renews renews_trans [OF sleep_renews token_renews]])

lemma get_renews: "get u ids this w = (r, w') \<Longrightarrow> renews this w w'"
  unfolding get_def
  by (auto split: option.splits prod.splits reply.splits sum.splits
      intro: keepAlive_renews renews_trans [OF keepAlive_renews exchange_renews])

lemma get_credits_renews: "get_credits u b this w = (r, w') \<Longrightarrow> renews this w w'"
  unfolding get_credits_def
  by (auto split: option.splits prod.splits reply.splits sum.splits if_splits
      intro: renews_refl keepAlive_renews exchange_renews
        renews_trans [OF keepAlive_renews exchange_renews])

lemma renews_clock: "renews this w w' \<Longrightarrow> clock w \<le> clock w'"
  by (simp add: renews_def)

lemma sleep_3_6: "clock w + 3000 \<le> clock (sleep u 3 (Some 6) w)"
  by (simp add: sleep_def Let_def)

termination wait_audio_loop
proof (relation "measure (\<lambda>(u, this, songIds, startTime, lastResponse, w). startTime + 100000 - clock w)")
  show "wf (measure (\<lambda>(u, this, songIds, startTime, lastResponse, w). startTime + 100000 - clock w))"
    by simp
next
  fix u this songIds startTime lastResponse w x w1 response y w3 z
  assume a: "clock w - startTime < 100000"
    and g: "(x, w1) = get u (Some songIds) this w"
    and k: "(y, w3) = keepAlive u True this (sleep u 3 (Some 6) w1)"
  have "clock w \<le> clock w1" using get_renews [OF g [symmetric]] by (rule renews_clock)
  moreover have "clock w1 + 3000 \<le> clock (sleep u 3 (Some 6) w1)" by (rule sleep_3_6)
  moreover have "clock (sleep u 3 (Some 6) w1) \<le> clock w3"
    using keepAlive_renews [OF k [symmetric]] by (rule renews_clock)
  ultimately have "clock w + 3000 \<le> clock w3" by linarith
  with a show "((u, this, songIds, startTime, response, w3), u, this, songIds, startTime, lastResponse, w)
        \<in> measure (\<lambda>(u, this, songIds, startTime, lastResponse, w). startTime + 100000 - clock w)"
    by simp
qed


declare wait_audio_loop.simps [simp del]

text \<open>
  The branch \<^verbatim>\<open>if (wait_audio)\<close> of \<^verbatim>\<open>generateSongs\<close>: the start time is read,
  \<^verbatim>\<open>sleep(5, 5)\<close>, then the loop. In \<^verbatim>\<open>generateSongs\<close> and \<^verbatim>\<open>concatenate\<close> the
  status text that the source appends to the message of the error is left out.
\<close>

definition wait_audio :: "upstream \<Rightarrow> ref \<Rightarrow> string list \<Rightarrow> world \<Rightarrow> (error + audio_info list) \<times> world" where
  "wait_audio u this songIds w = wait_audio_loop u this songIds (clock w) [] (sleep u 5 (Some 5) w)"

definition generateSongs ::
  "upstream \<Rightarrow> string \<Rightarrow> bool \<Rightarrow> string option \<Rightarrow> string option \<Rightarrow> bool \<Rightarrow> string option \<Rightarrow> bool
     \<Rightarrow> string option \<Rightarrow> ref \<Rightarrow> world \<Rightarrow> (error + audio_info list) \<times> world" where
  "generateSongs u prompt isCustom tags title make_instr model wait negative_tags this w =
     (case keepAlive u False this w of
        (Inl e, w1) \<Rightarrow> (Inl e, w1)
      | (Inr _, w1) \<Rightarrow>
         (let base = \<lparr>make_instrumental = make_instr,
                      mv = (case model of None \<Rightarrow> DEFAULT_MODEL
                            | Some m \<Rightarrow> if m = [] then DEFAULT_MODEL else m),
                      p_prompt = [], p_tags = None, p_title = None, p_negative_tags = None,
                      p_gpt_description_prompt = None\<rparr>;
              payload = (if isCustom
                         then base\<lparr>p_tags := tags, p_title := title,
                                  p_negative_tags := negative_tags, p_prompt := prompt\<rparr>
                         else base\<lparr>p_gpt_description_prompt := Some prompt\<rparr>)
          in case client (heap w1 this) of
               None \<Rightarrow> (Inl TypeError, w1)
             | Some c \<Rightarrow>
                (case exchange u (Some 10000) c (GenerateV2 payload)
                        (\<lambda>n. ep_generate u n c (bearer (heap w1 this)) payload) w1 of
                   (Rejected, w2) \<Rightarrow> (Inl AxiosError, w2)
                 | (Reply (st, clips), w2) \<Rightarrow>
                     if st \<noteq> 200 then (Inl (Error ''Error response:''), w2)
                     else if wait then wait_audio u this (map c_id clips) w2
                     else (case keepAlive u True this w2 of
                             (Inl e, w3) \<Rightarrow> (Inl e, w3)
                           | (Inr _, w3) \<Rightarrow> (Inr (map clip_info clips), w3)))))"

definition concatenate :: "upstream \<Rightarrow> string \<Rightarrow> ref \<Rightarrow> world \<Rightarrow> (error + data) \<times> world" where
  "concatenate u clip_id this w =
     (case keepAlive u False this w of
        (Inl e, w1) \<Rightarrow> (Inl e, w1)
      | (Inr _, w1) \<Rightarrow>
         (case client (heap w1 this) of
            None \<Rightarrow> (Inl TypeError, w1)
          | Some c \<Rightarrow>
             (case exchange u (Some 10000) c (ConcatV2 clip_id)
                     (\<lambda>n. ep_concat u n c (bearer (heap w1 this)) clip_id) w1 of
                (Rejected, w2) \<Rightarrow> (Inl AxiosError, w2)
              | (Reply (st, d), w2) \<Rightarrow>
                  if st \<noteq> 200 then (Inl (Error ''Error response:''), w2) else (Inr d, w2))))"

definition extendAudio ::
  "upstream \<Rightarrow> string \<Rightarrow> string option \<Rightarrow> string option \<Rightarrow> string option \<Rightarrow> string option
     \<Rightarrow> string option \<Rightarrow> ref \<Rightarrow> world \<Rightarrow> (error + data) \<times> world" where
  "extendAudio u audioId prompt continueAt tags title model this w =
     (let body = \<lparr>continue_clip_id = audioId,
                  continue_at = (case continueAt of None \<Rightarrow> ''0'' | Some x \<Rightarrow> x),
                  e_mv = (case model of None \<Rightarrow> DEFAULT_MODEL
                          | Some m \<Rightarrow> if m = [] then DEFAULT_MODEL else m),
                  e_prompt = (case prompt of None \<Rightarrow> [] | Some x \<Rightarrow> x),
                  e_tags = (case tags of None \<Rightarrow> [] | Some x \<Rightarrow> x),
                  e_title = (case title of None \<Rightarrow> [] | Some x \<Rightarrow> x)\<rparr>
      in case client (heap w this) of
           None \<Rightarrow> (Inl TypeError, w)
         | Some c \<Rightarrow>
            (case exchange u None c (ExtendV2 body) (\<lambda>n. ep_extend u n c (bearer (heap w this)) body) w of
               (Rejected, w1) \<Rightarrow> (Inl AxiosError, w1)
             | (Reply d, w1) \<Rightarrow> (Inr d, w1)))"

text \<open>
  The \<^verbatim>\<open>while\<close> loop of \<^verbatim>\<open>generateLyrics\<close>, which has no deadline: \<open>None\<close> is a
  loop that never ends.
\<close>

partial_function (option) lyrics_poll ::
  "upstream \<Rightarrow> ref \<Rightarrow> string \<Rightarrow> lyrics \<Rightarrow> world \<Rightarrow> ((error + lyrics) \<times> world) option" where
  "lyrics_poll u this generateId lyricsResponse w =
     (if l_status lyricsResponse \<noteq> Some ''complete''
      then (let w0 = sleep u 2 None w in
            case client (heap w0 this) of
              None \<Rightarrow> Some (Inl TypeError, w0)
            | Some c \<Rightarrow>
               (case exchange u None c (LyricsGet generateId)
                       (\<lambda>n. ep_lyrics_get u n c (bearer (heap w0 this)) generateId) w0 of
                  (Rejected, w1) \<Rightarrow> Some (Inl AxiosError, w1)
                | (Reply r, w1) \<Rightarrow> lyrics_poll u this generateId r w1))
      else Some (Inr lyricsResponse, w))"

declare lyrics_poll.simps [code]

definition generateLyrics :: "upstream \<Rightarrow> string \<Rightarrow> ref \<Rightarrow> world \<Rightarrow> ((error + lyrics) \<times> world) option" where
  "generateLyrics u prompt this w =
     (case keepAlive u False this w of
        (Inl e, w1) \<Rightarrow> Some (Inl e, w1)
      | (Inr _, w1) \<Rightarrow>
         (case client (heap w1 this) of
            None \<Rightarrow> Some (Inl TypeError, w1)
          | Some c \<Rightarrow>
             (case exchange u None c (LyricsPost prompt)
                     (\<lambda>n. ep_lyrics_post u n c (bearer (heap w1 this)) prompt) w1 of
                (Rejected, w2) \<Rightarrow> Some (Inl AxiosError, w2)
              | (Reply generateId, w2) \<Rightarrow>
                 (case exchange u None c (LyricsGet generateId)
                         (\<lambda>n. ep_lyrics_get u n c (bearer (heap w2 this)) generateId) w2 of
                    (Rejected, w3) \<Rightarrow> Some (Inl AxiosError, w3)
                  | (Reply r, w3) \<Rightarrow> lyrics_poll u this generateId r w3))))"

datatype call =
    Call_generate string bool "string option" bool
  | Call_concatenate string
  | Call_custom_generate string "string option" "string option" bool "string option" bool "string option"
  | Call_generateLyrics string
  | Call_extendAudio string "string option" "string option" "string option" "string option" "string option"

datatype result = Audios "audio_info list" | Body data | Lyrics lyrics

fun method_of :: "call \<Rightarrow> method_name" where
  "method_of (Call_generate _ _ _ _) = Generate"
| "method_of (Call_concatenate _) = Concatenate"
| "method_of (Call_custom_generate _ _ _ _ _ _ _) = Custom_generate"
| "method_of (Call_generateLyrics _) = GenerateLyrics"
| "method_of (Call_extendAudio _ _ _ _ _ _) = ExtendAudio"

definition returning :: "('a \<Rightarrow> result) \<Rightarrow> (error + 'a) \<times> world \<Rightarrow> (error + result) \<times> world" where
  "returning f x = (case x of (Inl e, w) \<Rightarrow> (Inl e, w) | (Inr v, w) \<Rightarrow> (Inr (f v), w))"

definition generate ::
  "upstream \<Rightarrow> string \<Rightarrow> bool \<Rightarrow> string option \<Rightarrow> bool \<Rightarrow> ref \<Rightarrow> world
     \<Rightarrow> (error + audio_info list) \<times> world" where
  "generate u prompt make_instr model wait this w =
     (case keepAlive u False this w of
        (Inl e, w1) \<Rightarrow> (Inl e, w1)
      | (Inr _, w1) \<Rightarrow> generateSongs u prompt False None None make_instr model wait None this w1)"

definition custom_generate ::
  "upstream \<Rightarrow> string \<Rightarrow> string option \<Rightarrow> string option \<Rightarrow> bool \<Rightarrow> string option \<Rightarrow> bool
     \<Rightarrow> string option \<Rightarrow> ref \<Rightarrow> world \<Rightarrow> (error + audio_info list) \<times> world" where
  "custom_generate u prompt tags title make_instr model wait negative_tags this w =
     generateSongs u prompt True tags title make_instr model wait negative_tags this w"

text \<open>The methods of the prototype, by name: what \<^verbatim>\<open>method.apply(this, args)\<close> runs.\<close>

fun proto :: "upstream \<Rightarrow> call \<Rightarrow> ref \<Rightarrow> world \<Rightarrow> ((error + result) \<times> world) option" where
  "proto u (Call_generate prompt make_instr model wait) this w =
     Some (returning Audios (generate u prompt make_instr model wait this w))"
| "proto u (Call_concatenate clip_id) this w = Some (returning Body (concatenate u clip_id this w))"
| "proto u (Call_custom_generate prompt tags title make_instr model wait negative_tags) this w =
     Some (returning Audios (custom_generate u prompt tags title make_instr model wait negative_tags this w))"
| "proto u (Call_generateLyrics prompt) this w =
     map_option (returning Lyrics) (generateLyrics u prompt this w)"
| "proto u (Call_extendAudio audioId prompt continueAt tags title model) this w =
     Some (returning Body (extendAudio u audioId prompt continueAt tags title model this w))"

section \<open>The failover decorator\<close>

text \<open>
  \<^verbatim>\<open>licenseCheckDecorator(method)\<close>. The session found good is asked for the property
  named \<^verbatim>\<open>method.name\<close>, which \<^verbatim>\<open>setupBindings\<close> has replaced by the decorated
  method: the call enters the decorator again, on the new session. The first argument
  bounds the number of such entries; \<open>None\<close> is a call that has not returned within
  the bound, or whose method never returns.
\<close>

fun licenseCheckDecorator ::
  "nat \<Rightarrow> upstream \<Rightarrow> call \<Rightarrow> ref \<Rightarrow> world \<Rightarrow> ((error + result) \<times> world) option"
and for_licKeys ::
  "nat \<Rightarrow> upstream \<Rightarrow> call \<Rightarrow> ref \<Rightarrow> license list \<Rightarrow> world \<Rightarrow> ((error + result) \<times> world) option"
where
  "licenseCheckDecorator 0 u method this w = None"
| "licenseCheckDecorator (Suc n) u method this w =
     (case get_credits u False this w of
        (Inl e, w1) \<Rightarrow> Some (Inl e, w1)
      | (Inr credits, w1) \<Rightarrow>
          if js_lt (credits_left credits) 10
          then (case getSunoLicenseKeys w1 of (licKeys, w2) \<Rightarrow> for_licKeys n u method this licKeys w2)
          else proto u method this w1)"
| "for_licKeys n u method this [] w =
     (case activeSunoLicense w of
        None \<Rightarrow> Some (Inl TypeError, w)
      | Some _ \<Rightarrow> proto u method this w)"
| "for_licKeys n u method this (lic # rest) w =
     (case newSunoApi u (licenseKey lic) w of
        (Inl e, w1) \<Rightarrow> Some (Inl e, w1)
      | (Inr api, w1) \<Rightarrow>
         (case get_credits u False api (w1\<lparr>sunoApi := Some api\<rparr>) of
            (Inl e, w2) \<Rightarrow> Some (Inl e, w2)
          | (Inr credits, w2) \<Rightarrow>
              if js_ge (credits_left credits) 10
              then (let w3 = setSunoActiveLicense (account lic) (licenseKey lic)
                               (w2\<lparr>activeSunoLicense := Some lic\<rparr>)
                    in if wrapped (heap w3 api) (method_of method)
                       then licenseCheckDecorator n u method api w3
                       else proto u method api w3)
              else for_licKeys n u method this rest w2))"

text \<open>A call \<^verbatim>\<open>(await sunoApi).m(...)\<close> from outside: the property of the object.\<close>

definition invoke :: "nat \<Rightarrow> upstream \<Rightarrow> call \<Rightarrow> ref \<Rightarrow> world \<Rightarrow> ((error + result) \<times> world) option" where
  "invoke n u method r w =
     (if wrapped (heap w r) (method_of method) then licenseCheckDecorator n u method r w
      else proto u method r w)"

section \<open>The feed guard of the TypeScript variant\<close>

text \<open>
  \<^verbatim>\<open>SunoApi.ts\<close> has no decorator; its \<^verbatim>\<open>init\<close> installs no bindings, and its
  \<^verbatim>\<open>get\<close> runs inside \<^verbatim>\<open>change_Account\<close>. The cookie written out in
  \<^verbatim>\<open>change_Account\<close> is the parameter \<open>new_Cookie\<close>.
\<close>

definition ts_init :: "upstream \<Rightarrow> cookie \<Rightarrow> ref \<Rightarrow> world \<Rightarrow> (error + ref) \<times> world" where
  "ts_init u cookie this w =
     (let w1 = w\<lparr>heap := (heap w)(this := (heap w this)\<lparr>client := Some cookie\<rparr>)\<rparr> in
      case getClerkLatestVersion u this w1 of
        (Inl e, w2) \<Rightarrow> (Inl e, w2)
      | (Inr _, w2) \<Rightarrow>
         (case getAuthToken u this w2 of
            (Inl e, w3) \<Rightarrow> (Inl e, w3)
          | (Inr _, w3) \<Rightarrow>
             (case keepAlive u False this w3 of
                (Inl e, w4) \<Rightarrow> (Inl e, w4)
              | (Inr _, w4) \<Rightarrow> (Inr this, w4))))"

definition change_Account ::
  "upstream \<Rightarrow> cookie \<Rightarrow> (ref \<Rightarrow> world \<Rightarrow> (error + 'a) \<times> world) \<Rightarrow> ref \<Rightarrow> world \<Rightarrow> (error + 'a) \<times> world" where
  "change_Account u new_Cookie apiCall this w =
     (case get_credits u False this w of
        (Inl e, w1) \<Rightarrow> (Inl e, w1)
      | (Inr credits, w1) \<Rightarrow>
          if js_lt (credits_left credits) 44
          then (case new_SunoApi w1 of
                  (r, w2) \<Rightarrow>
                   (case ts_init u new_Cookie r w2 of
                      (Inl e, w3) \<Rightarrow> (Inl e, w3)
                    | (Inr api, w3) \<Rightarrow>
                       (case get_credits u False api w3 of
                          (Inl e, w4) \<Rightarrow> (Inl e, w4)
                        | (Inr credits2, w4) \<Rightarrow> apiCall api w4)))
          else apiCall this w1)"

definition ts_newSunoApi :: "upstream \<Rightarrow> cookie \<Rightarrow> world \<Rightarrow> (error + ref) \<times> world" where
  "ts_newSunoApi u cookie w = (case new_SunoApi w of (r, w1) \<Rightarrow> ts_init u cookie r w1)"

definition ts_get ::
  "upstream \<Rightarrow> cookie \<Rightarrow> string list option \<Rightarrow> ref \<Rightarrow> world \<Rightarrow> (error + audio_info list) \<times> world" where
  "ts_get u new_Cookie songIds this w = change_Account u new_Cookie (\<lambda>context. get u songIds context) this w"

text \<open>
  Two things a service may do to \<^verbatim>\<open>generateLyrics\<close>: answer every status fetch, never
  with the status \<open>complete\<close>; or, less, never answer a fetch with that status.
\<close>

definition never_complete :: "upstream \<Rightarrow> bool" where
  "never_complete u \<longleftrightarrow>
     (\<forall>n c t i. \<exists>l. ep_lyrics_get u n c t i = Reply l \<and> l_status l \<noteq> Some ''complete'')"

definition no_complete :: "upstream \<Rightarrow> bool" where
  "no_complete u \<longleftrightarrow>
     (\<forall>n c t i l. ep_lyrics_get u n c t i = Reply l \<longrightarrow> l_status l \<noteq> Some ''complete'')"

text \<open>
  What the service may do with a credential: \<open>accepts\<close>, the three steps of
  \<^verbatim>\<open>init\<close> succeed for the cookie at any time; \<open>viable\<close>, every billing query for the
  cookie is answered with at least 10 credits; \<open>lacking\<close>, every one is answered with
  fewer, or with none. \<open>billing_stable\<close>: the answer to a billing query depends on the
  cookie only, not on when it is asked.
\<close>

definition accepts :: "upstream \<Rightarrow> cookie \<Rightarrow> bool" where
  "accepts u c \<longleftrightarrow>
     (\<forall>n. \<exists>v. ep_clerk_js u n c = Reply (Some v) \<and> v \<noteq> []) \<and>
     (\<forall>n v. \<exists>s. ep_client u n c v = Reply (Some s) \<and> s \<noteq> []) \<and>
     (\<forall>n s v. \<exists>t. ep_tokens u n c s v = Reply t)"


definition lacking :: "upstream \<Rightarrow> cookie \<Rightarrow> bool" where
  "lacking u c \<longleftrightarrow> (\<forall>n t. \<exists>b. ep_billing u n c t = Reply b \<and> \<not> js_ge (total_credits_left b) 10)"


section \<open>Concrete services and worlds\<close>

definition silent :: upstream where
  "silent = \<lparr>latency = (\<lambda>_. 0), math_random = (\<lambda>_. 0),
     ep_clerk_js = (\<lambda>_ _. Rejected), ep_client = (\<lambda>_ _ _. Rejected),
     ep_tokens = (\<lambda>_ _ _ _. Rejected), ep_billing = (\<lambda>_ _ _. Rejected),
     ep_generate = (\<lambda>_ _ _ _. Rejected), ep_extend = (\<lambda>_ _ _ _. Rejected),
     ep_concat = (\<lambda>_ _ _ _. Rejected), ep_lyrics_post = (\<lambda>_ _ _ _. Rejected),
     ep_lyrics_get = (\<lambda>_ _ _ _. Rejected), ep_feed = (\<lambda>_ _ _ _. Rejected)\<rparr>"

definition boot :: world where
  "boot = \<lparr>clock = 0, ticks = 0, trace = [], heap = (\<lambda>_. blank), fresh = 0, sunoApi = None,
     activeSunoLicense = None, store_keys = [], store_active = None, store_writes = []\<rparr>"

text \<open>A service whose token endpoint answers with a body that has no \<^verbatim>\<open>jwt\<close> field.\<close>

definition no_jwt :: upstream where
  "no_jwt = silent\<lparr>ep_clerk_js := (\<lambda>_ _. Reply (Some ''5.0'')),
     ep_client := (\<lambda>_ _ _. Reply (Some ''sess_1'')),
     ep_tokens := (\<lambda>_ _ _ _. Reply None)\<rparr>"

text \<open>
  A service that admits every cookie but \<open>''expired''\<close> and reports, at every query, the
  quota the table gives for the cookie.
\<close>

definition service :: "(cookie \<Rightarrow> int option) \<Rightarrow> upstream" where
  "service quota = silent\<lparr>
     ep_clerk_js := (\<lambda>_ _. Reply (Some ''5.0'')),
     ep_client := (\<lambda>_ c _. if c = ''expired'' then Reply None else Reply (Some ''sess'')),
     ep_tokens := (\<lambda>_ _ _ _. Reply (Some ''jwt'')),
     ep_billing := (\<lambda>_ c _. Reply \<lparr>total_credits_left = quota c, b_period = None,
                                     b_monthly_limit = None, b_monthly_usage = None\<rparr>),
     ep_extend := (\<lambda>_ _ _ _. Reply ''extended''),
     ep_concat := (\<lambda>_ _ _ _. Reply (200, ''joined'')),
     ep_generate := (\<lambda>_ _ _ _. Reply (200, [])),
     ep_feed := (\<lambda>_ _ _ _. Reply []),
     ep_lyrics_post := (\<lambda>_ _ _ _. Reply ''L1''),
     ep_lyrics_get := (\<lambda>_ _ _ _. Reply \<lparr>l_status = Some ''complete'', l_title = Some ''Song'',
                                          l_text = Some ''la la''\<rparr>)\<rparr>"

text \<open>
  The state of the module once it is loaded: \<^verbatim>\<open>newSunoApi('')\<close> has read the active
  license \<open>a\<close> from the sheet and initialised the first session, at reference 0, which
  the exported variable \<^verbatim>\<open>sunoApi\<close> holds.
\<close>

definition sheet :: "license list \<Rightarrow> world" where
  "sheet keys = boot\<lparr>store_keys := keys,
                     store_active := Some \<lparr>account = ''a'', licenseKey = ''A''\<rparr>\<rparr>"

definition live :: "license list \<Rightarrow> world" where
  "live keys = (snd (newSunoApi (service (\<lambda>_. Some 50)) [] (sheet keys)))\<lparr>sunoApi := Some 0\<rparr>"

text \<open>
  A service whose feed answers every fetch, whatever the ids, with one clip that stays
  \<open>queued\<close>; it answers at once (every latency is 0), and the draws of
  \<^verbatim>\<open>Math.random()\<close> select sleeps of 4 and 2 seconds in the first round and of 6 and
  2 seconds in the later ones.
\<close>

definition queued :: clip where
  "queued = \<lparr>c_id = ''song'', c_title = None, c_image_url = None, c_audio_url = None,
     c_video_url = None, c_created_at = ''2024-10-27'', c_model_name = ''chirp-v3-5'',
     c_status = ''queued'',
     c_metadata = \<lparr>m_prompt = None, m_gpt_description_prompt = None, m_type = None, m_tags = None,
       m_negative_tags = None, m_duration = None, m_error_message = None\<rparr>\<rparr>"

definition stalled :: upstream where
  "stalled = (service (\<lambda>_. Some 50))\<lparr>
     math_random := (\<lambda>n. if n < 8 then 1 else 13),
     ep_feed := (\<lambda>_ _ _ _. Reply [queued])\<rparr>"

text \<open>
  The same service when each token renewal takes 20 seconds; the feed request, which
  has a timeout of 3 seconds, is answered at once.
\<close>

definition sluggish :: upstream where
  "sluggish = stalled\<lparr>latency := (\<lambda>n. if n mod 5 = 4 then 0 else 20000)\<rparr>"

text \<open>
  Two services for the lyrics: one takes 300 milliseconds for every exchange and
  reports \<open>running\<close> until the eighth exchange and \<open>complete\<close> from then on, the
  other answers at once and reports \<open>running\<close> for ever.
\<close>

definition drafting :: upstream where
  "drafting = (service (\<lambda>_. Some 50))\<lparr>
     latency := (\<lambda>_. 300),
     ep_lyrics_get := (\<lambda>n _ _ _. Reply \<lparr>l_status = (if n < 8 then Some ''running'' else Some ''complete''),
                                        l_title = None, l_text = None\<rparr>)\<rparr>"

definition writers_block :: upstream where
  "writers_block = (service (\<lambda>_. Some 50))\<lparr>
     ep_lyrics_get := (\<lambda>_ _ _ _. Reply \<lparr>l_status = Some ''running'', l_title = None, l_text = None\<rparr>)\<rparr>"

text \<open>
  Candidates of the sheet and quota tables: the cookie \<open>A\<close> of the active account has
  5 credits; in \<open>table\<close> the cookie \<open>B\<close> has 3 and every other 50, in \<open>drained\<close>
  every other cookie has 3. In \<open>flaky\<close> the cookie \<open>B\<close> has 12 credits up to the
  tenth exchange and 4 afterwards: the quota is the service's to change between two
  queries.
\<close>

definition lic_b :: license where "lic_b = \<lparr>account = ''b'', licenseKey = ''B''\<rparr>"
definition lic_c :: license where "lic_c = \<lparr>account = ''c'', licenseKey = ''C''\<rparr>"

definition table :: "cookie \<Rightarrow> int option" where
  "table c = (if c = ''A'' then Some 5 else if c = ''B'' then Some 3 else Some 50)"


definition lic_x :: license where "lic_x = \<lparr>account = ''x'', licenseKey = ''expired''\<rparr>"

definition drained :: "cookie \<Rightarrow> int option" where
  "drained c = (if c = ''A'' then Some 5 else Some 3)"

text \<open>
  The service of \<open>table\<close> when the billing endpoint rejects every query made with the
  cookie \<open>Q\<close>: the session of that cookie initialises, and its quota query throws.
\<close>

definition lic_q :: license where "lic_q = \<lparr>account = ''q'', licenseKey = ''Q''\<rparr>"

definition unbilled :: upstream where
  "unbilled = (service table)\<lparr>
     ep_billing := (\<lambda>n c t. if c = ''Q'' then Rejected else ep_billing (service table) n c t)\<rparr>"

text \<open>
  The state of the TypeScript module once it is loaded; there the cookie is a constant
  of the file, and no sheet is read.
\<close>

definition ts_live :: world where
  "ts_live = snd (ts_newSunoApi (service (\<lambda>_. Some 50)) ''A'' boot)"

section \<open>Initialisation\<close>

lemmas session_defs = newSunoApi_def new_SunoApi_def init_def setupBindings_def
  getClerkLatestVersion_def getAuthToken_def keepAlive_def exchange_def get_credits_def
  sleep_def blank_def bearer_def getSunoActiveLicense_def getSunoLicenseKeys_def
  setSunoActiveLicense_def

text \<open>
  C7. \<^verbatim>\<open>init\<close> checks the version and the session id it is sent, but \<^verbatim>\<open>keepAlive\<close>
  stores \<^verbatim>\<open>renewResponse.data["jwt"]\<close> as it comes: when the token endpoint answers
  without that field, \<^verbatim>\<open>init\<close> returns a session that has a session id and no bearer
  token.
\<close>

theorem init_partial_session:
  "fst (newSunoApi no_jwt ''cookie'' boot) = Inr 0 \<and>
   sid (heap (snd (newSunoApi no_jwt ''cookie'' boot)) 0) = Some ''sess_1'' \<and>
   currentToken (heap (snd (newSunoApi no_jwt ''cookie'' boot)) 0) = None"
  by (simp add: session_defs no_jwt_def silent_def boot_def Let_def)

section \<open>What the methods leave unchanged\<close>

lemma wait_audio_loop_renews:
  "wait_audio_loop u this ids st lastR w = (r, w') \<Longrightarrow> renews this w w'"
proof (induction u this ids st lastR w rule: wait_audio_loop.induct)
  case (1 u this songIds startTime lastResponse w)
  note unfold = wait_audio_loop.simps [of u this songIds startTime lastResponse w]
  show ?case
  proof (cases "clock w - startTime < 100000")
    case False
    with "1.prems" show ?thesis by (simp add: unfold renews_refl)
  next
    case True
    obtain x w1 where g: "get u (Some songIds) this w = (x, w1)" by (cases "get u (Some songIds) this w")
    have r1: "renews this w w1" using g by (rule get_renews)
    show ?thesis
    proof (cases x)
      case (Inl e)
      with "1.prems" True g r1 show ?thesis by (simp add: unfold)
    next
      case (Inr response)
      show ?thesis
      proof (cases "list_all (\<lambda>audio. status audio = ''streaming'' \<or> status audio = ''complete'') response
                   \<or> list_all (\<lambda>audio. status audio = ''error'') response")
        case True
        with "1.prems" \<open>clock w - startTime < 100000\<close> g Inr r1 show ?thesis
          by (auto simp: unfold)
      next
        case nt: False
        obtain y w3 where k: "keepAlive u True this (sleep u 3 (Some 6) w1) = (y, w3)"
          by (cases "keepAlive u True this (sleep u 3 (Some 6) w1)")
        have r3: "renews this w w3"
          using r1 sleep_renews keepAlive_renews [OF k] by (blast intro: renews_trans)
        show ?thesis
        proof (cases y)
          case (Inl e)
          with "1.prems" True g Inr nt k r3 show ?thesis by (auto simp: unfold)
        next
          case yr: (Inr z)
          have "wait_audio_loop u this songIds startTime response w3 = (r, w')"
            using "1.prems" True g Inr nt k yr by (auto simp: unfold)
          then have "renews this w3 w'"
            using "1.IH" [OF True g [symmetric] Inr nt k [symmetric] yr] by simp
          with r3 show ?thesis by (rule renews_trans)
        qed
      qed
    qed
  qed
qed

lemma lyrics_poll_renews:
  assumes "lyrics_poll u this g l w = Some y"
  shows "renews this w (snd y)"
proof (rule lyrics_poll.raw_induct
    [where P = "\<lambda>u this g l w y. renews this w (snd y)", OF _ assms], goal_cases)
  case (1 poll u this generateId lyricsResponse w y)
  note IH = "1"(1) and step = "1"(2)
  show ?case
  proof (cases "l_status lyricsResponse \<noteq> Some ''complete''")
    case False
    with step show ?thesis by (auto intro: renews_refl)
  next
    case True
    let ?w0 = "sleep u 2 None w"
    have r0: "renews this w ?w0" by (rule sleep_renews)
    show ?thesis
    proof (cases "client (heap ?w0 this)")
      case None
      with step True r0 show ?thesis by (auto simp: Let_def)
    next
      case (Some c)
      obtain x w1 where e: "exchange u None c (LyricsGet generateId)
            (\<lambda>n. ep_lyrics_get u n c (bearer (heap ?w0 this)) generateId) ?w0 = (x, w1)"
        by (cases "exchange u None c (LyricsGet generateId)
            (\<lambda>n. ep_lyrics_get u n c (bearer (heap ?w0 this)) generateId) ?w0")
      have r1: "renews this w w1" using r0 exchange_renews [OF e] by (rule renews_trans)
      show ?thesis
      proof (cases x)
        case Rejected
        with step True Some e r1 show ?thesis by (auto simp: Let_def)
      next
        case (Reply r)
        with step True Some e have "poll u this generateId r w1 = Some y"
          by (auto simp: Let_def)
        then have "renews this w1 (snd y)" by (rule IH)
        with r1 show ?thesis by (rule renews_trans)
      qed
    qed
  qed
qed

lemma generateLyrics_renews:
  assumes "generateLyrics u prompt this w = Some (r, w')"
  shows "renews this w w'"
proof -
  obtain x w1 where k: "keepAlive u False this w = (x, w1)" by (cases "keepAlive u False this w")
  have r1: "renews this w w1" using k by (rule keepAlive_renews)
  show ?thesis
  proof (cases x)
    case (Inl e)
    with assms k r1 show ?thesis by (simp add: generateLyrics_def)
  next
    case (Inr z)
    show ?thesis
    proof (cases "client (heap w1 this)")
      case None
      with assms k Inr r1 show ?thesis by (simp add: generateLyrics_def)
    next
      case (Some c)
      obtain x2 w2 where e2: "exchange u None c (LyricsPost prompt)
            (\<lambda>n. ep_lyrics_post u n c (bearer (heap w1 this)) prompt) w1 = (x2, w2)"
        by (cases "exchange u None c (LyricsPost prompt)
            (\<lambda>n. ep_lyrics_post u n c (bearer (heap w1 this)) prompt) w1")
      have r2: "renews this w w2" using r1 exchange_renews [OF e2] by (rule renews_trans)
      show ?thesis
      proof (cases x2)
        case Rejected
        with assms k Inr Some e2 r2 show ?thesis by (simp add: generateLyrics_def)
      next
        case (Reply gid)
        obtain x3 w3 where e3: "exchange u None c (LyricsGet gid)
              (\<lambda>n. ep_lyrics_get u n c (bearer (heap w2 this)) gid) w2 = (x3, w3)"
          by (cases "exchange u None c (LyricsGet gid)
              (\<lambda>n. ep_lyrics_get u n c (bearer (heap w2 this)) gid) w2")
        have r3: "renews this w w3" using r2 exchange_renews [OF e3] by (rule renews_trans)
        show ?thesis
        proof (cases x3)
          case Rejected
          with assms k Inr Some e2 Reply e3 r3 show ?thesis by (simp add: generateLyrics_def)
        next
          case rr: (Reply l)
          with assms k Inr Some e2 Reply e3 have "lyrics_poll u this gid l w3 = Some (r, w')"
            by (simp add: generateLyrics_def)
          from lyrics_poll_renews [OF this] r3 show ?thesis by (auto intro: renews_trans)
        qed
      qed
    qed
  qed
qed

lemma wait_audio_renews: "wait_audio u this ids w = (r, w') \<Longrightarrow> renews this w w'"
  unfolding wait_audio_def
  by (blast intro: renews_trans sleep_renews wait_audio_loop_renews)

lemma generateSongs_renews:
  "generateSongs u prompt isCustom tags title mi model wait nt this w = (r, w') \<Longrightarrow> renews this w w'"
  unfolding generateSongs_def Let_def
  by (auto split: option.splits prod.splits reply.splits sum.splits if_splits
      intro: renews_refl keepAlive_renews exchange_renews
        renews_trans [OF keepAlive_renews exchange_renews]
        renews_trans [OF keepAlive_renews renews_trans [OF exchange_renews wait_audio_renews]]
        renews_trans [OF keepAlive_renews renews_trans [OF exchange_renews keepAlive_renews]])

lemma generate_renews:
  "generate u prompt mi model wait this w = (r, w') \<Longrightarrow> renews this w w'"
  unfolding generate_def
  by (auto split: prod.splits sum.splits
      intro: keepAlive_renews renews_trans [OF keepAlive_renews generateSongs_renews])

lemma concatenate_renews: "concatenate u clip_id this w = (r, w') \<Longrightarrow> renews this w w'"
  unfolding concatenate_def
  by (auto split: option.splits prod.splits reply.splits sum.splits if_splits
      intro: renews_refl keepAlive_renews renews_trans [OF keepAlive_renews exchange_renews])

lemma extendAudio_renews:
  "extendAudio u a p c t ti m this w = (r, w') \<Longrightarrow> renews this w w'"
  unfolding extendAudio_def Let_def
  by (auto split: option.splits prod.splits reply.splits
      intro: renews_refl exchange_renews)

lemma returning_world: "returning f x = (r, w') \<Longrightarrow> snd x = w'"
  by (auto simp: returning_def split: prod.splits sum.splits)

lemma proto_renews:
  assumes "proto u mth this w = Some (r, w')"
  shows "renews this w w'"
proof (cases mth)
  case (Call_generate p mi m wa)
  with assms obtain x where "generate u p mi m wa this w = (x, w')"
    by (cases "generate u p mi m wa this w") (auto dest: returning_world)
  then show ?thesis by (rule generate_renews)
next
  case (Call_concatenate c)
  with assms obtain x where "concatenate u c this w = (x, w')"
    by (cases "concatenate u c this w") (auto dest: returning_world)
  then show ?thesis by (rule concatenate_renews)
next
  case (Call_custom_generate p t ti mi m wa nt)
  with assms obtain x where "generateSongs u p True t ti mi m wa nt this w = (x, w')"
    by (cases "generateSongs u p True t ti mi m wa nt this w")
      (auto simp: custom_generate_def dest: returning_world)
  then show ?thesis by (rule generateSongs_renews)
next
  case (Call_generateLyrics p)
  with assms obtain x where "generateLyrics u p this w = Some (x, w')"
    by (cases "generateLyrics u p this w") (auto dest: returning_world)
  then show ?thesis by (rule generateLyrics_renews)
next
  case (Call_extendAudio a p c t ti m)
  with assms obtain x where "extendAudio u a p c t ti m this w = (x, w')"
    by (cases "extendAudio u a p c t ti m this w") (auto dest: returning_world)
  then show ?thesis by (rule extendAudio_renews)
qed

lemma js_ge_not_lt: "js_ge x n \<Longrightarrow> \<not> js_lt x n"
  by (cases x) auto

lemma pair_fst: "fst x = a \<Longrightarrow> x = (a, snd x)"
  by (cases x) simp

lemma every_method:
  "m = Generate \<or> m = Concatenate \<or> m = Custom_generate \<or> m = GenerateLyrics \<or> m = ExtendAudio"
  by (cases m) simp_all

lemma live_fields:
  "heap (live keys) 0 = \<lparr>client = Some ''A'', clerkVersion = Some ''5.0'', sid = Some ''sess'',
      currentToken = Some ''jwt'', wrapped = (\<lambda>m. True)\<rparr>"
  "fresh (live keys) = 1" "store_keys (live keys) = keys" "store_writes (live keys) = []"
  "store_active (live keys) = Some \<lparr>account = ''a'', licenseKey = ''A''\<rparr>"
  "activeSunoLicense (live keys) = Some \<lparr>account = ''a'', licenseKey = ''A''\<rparr>"
  "clock (live keys) = 0" "ticks (live keys) = 3" "sunoApi (live keys) = Some 0"
  "trace (live keys) = [SheetGetActive, Http ''A'' ClerkJsPackage,
     Http ''A'' (ClerkClient (Some ''5.0'')), Http ''A'' (ClerkTokens ''sess'' (Some ''5.0''))]"
  by (simp_all add: live_def sheet_def service_def session_defs silent_def boot_def Let_def
      fun_eq_iff every_method)

section \<open>The decorator when the quota suffices\<close>

text \<open>
  C1. When the quota query on the active session answers with at least 10 credits, the
  decorated method is the method itself, applied to the same session in the world the
  query leaves: nothing is written to the sheet by the decorator (\<open>store_writes\<close> is the
  log of the calls of \<^verbatim>\<open>setSunoActiveLicense\<close>), nor by the method.
\<close>

theorem guard_sufficient_quota:
  assumes "get_credits u False this w = (Inr cr, w1)" and "js_ge (credits_left cr) 10"
  shows "licenseCheckDecorator (Suc n) u method this w = proto u method this w1 \<and>
         store_writes w1 = store_writes w \<and> store_active w1 = store_active w \<and>
         (\<forall>res w'. proto u method this w1 = Some (res, w') \<longrightarrow>
            store_writes w' = store_writes w \<and> store_active w' = store_active w)"
proof -
  have low: "\<not> js_lt (credits_left cr) 10" using assms(2) by (rule js_ge_not_lt)
  have r1: "renews this w w1" using assms(1) by (rule get_credits_renews)
  have "licenseCheckDecorator (Suc n) u method this w = proto u method this w1"
    using assms(1) low by simp
  moreover have "store_writes w1 = store_writes w \<and> store_active w1 = store_active w"
    using r1 by (simp add: renews_def)
  moreover have "store_writes w' = store_writes w \<and> store_active w' = store_active w"
    if "proto u method this w1 = Some (res, w')" for res w'
    using renews_trans [OF r1 proto_renews [OF that]] by (simp add: renews_def)
  ultimately show ?thesis by blast
qed



theorem guard_sufficient_quota_witness:
  "licenseCheckDecorator 1 (service (\<lambda>_. Some 50)) (Call_concatenate ''clip'') 0 (live []) =
     proto (service (\<lambda>_. Some 50)) (Call_concatenate ''clip'') 0
       (snd (get_credits (service (\<lambda>_. Some 50)) False 0 (live []))) \<and>
   store_writes (snd (get_credits (service (\<lambda>_. Some 50)) False 0 (live []))) = [] \<and>
   js_ge (Some 50) 10"
proof -
  let ?u = "service (\<lambda>_. Some 50)"
  have q: "get_credits ?u False 0 (live []) =
      (Inr \<lparr>credits_left = Some 50, period = None, monthly_limit = None, monthly_usage = None\<rparr>,
       snd (get_credits ?u False 0 (live [])))"
    by (rule pair_fst)
      (simp add: get_credits_def keepAlive_def exchange_def live_fields service_def silent_def Let_def)
  have g: "js_ge (credits_left \<lparr>credits_left = Some 50, period = None, monthly_limit = None,
      monthly_usage = None\<rparr>) 10" by simp
  from guard_sufficient_quota [OF q g, of 0 "Call_concatenate ''clip''"] show ?thesis
    by (simp add: live_fields)
qed

section \<open>Which methods are decorated\<close>

lemma setupBindings_wrapped: "wrapped (heap (setupBindings this w) this) m"
  using every_method [of m] by (auto simp: setupBindings_def)

lemma exchange_heap: "exchange u t c rq ep w = (r, w') \<Longrightarrow> heap w' = heap w"
  by (auto simp: exchange_def Let_def split: option.splits if_splits)

lemma sleep_heap: "heap (sleep u x y w) = heap w"
  by (simp add: sleep_def Let_def split: option.splits)

lemma getClerkLatestVersion_wrapped:
  "getClerkLatestVersion u this w = (r, w') \<Longrightarrow> wrapped (heap w' x) = wrapped (heap w x)"
  by (auto simp: getClerkLatestVersion_def split: option.splits prod.splits reply.splits if_splits
      dest: exchange_heap)

lemma getAuthToken_wrapped:
  "getAuthToken u this w = (r, w') \<Longrightarrow> wrapped (heap w' x) = wrapped (heap w x)"
  by (auto simp: getAuthToken_def Let_def split: option.splits prod.splits reply.splits if_splits
      dest: exchange_heap)

lemma keepAlive_wrapped:
  "keepAlive u b this w = (r, w') \<Longrightarrow> wrapped (heap w' x) = wrapped (heap w x)"
  by (auto simp: keepAlive_def Let_def sleep_heap split: option.splits prod.splits reply.splits if_splits
      dest: exchange_heap)

lemma init_wrapped:
  assumes "init u cookie this w = (Inr r, w')"
  shows "r = this \<and> wrapped (heap w' this) m"
proof -
  let ?w1 = "(setupBindings this w)\<lparr>heap := (heap (setupBindings this w))
      (this := (heap (setupBindings this w) this)\<lparr>client := Some cookie\<rparr>)\<rparr>"
  have w1: "wrapped (heap ?w1 this) m" using setupBindings_wrapped [of this w m] by simp
  obtain x2 w2 where a: "getClerkLatestVersion u this ?w1 = (x2, w2)"
    by (cases "getClerkLatestVersion u this ?w1")
  obtain x3 w3 where b: "getAuthToken u this w2 = (x3, w3)" by (cases "getAuthToken u this w2")
  obtain x4 w4 where c: "keepAlive u False this w3 = (x4, w4)" by (cases "keepAlive u False this w3")
  from assms a b c have "r = this" and "w' = w4"
    by (auto simp: init_def Let_def split: sum.splits)
  moreover have "wrapped (heap w4 this) = wrapped (heap ?w1 this)"
    using getClerkLatestVersion_wrapped [OF a] getAuthToken_wrapped [OF b] keepAlive_wrapped [OF c]
    by simp
  ultimately show ?thesis using w1 by simp
qed

lemmas method_defs = invoke_def extendAudio_def generateLyrics_def returning_def get_def
  DEFAULT_MODEL_def concatenate_def

lemmas service_defs = service_def silent_def

text \<open>
  C6, as the code has it. \<^verbatim>\<open>setupBindings\<close> replaces all five methods, so on every
  session that \<^verbatim>\<open>init\<close> returns each of the five names is decorated, and a call of
  any of them, \<^verbatim>\<open>generateLyrics\<close> and \<^verbatim>\<open>extendAudio\<close> included, is a call of the
  decorator.
\<close>

theorem setupBindings_wraps_all_five:
  assumes "init u cookie this w = (Inr r, w')"
  shows "wrapped (heap w' r) Generate \<and> wrapped (heap w' r) Concatenate \<and>
         wrapped (heap w' r) Custom_generate \<and> wrapped (heap w' r) GenerateLyrics \<and>
         wrapped (heap w' r) ExtendAudio \<and>
         invoke n u mth r w' = licenseCheckDecorator n u mth r w'"
  using init_wrapped [OF assms] by (simp add: invoke_def)

theorem setupBindings_wraps_all_five_witness:
  "wrapped (heap (snd (init (service (\<lambda>_. Some 50)) ''A'' 0 (snd (new_SunoApi boot)))) 0) GenerateLyrics \<and>
   wrapped (heap (snd (init (service (\<lambda>_. Some 50)) ''A'' 0 (snd (new_SunoApi boot)))) 0) ExtendAudio \<and>
   invoke 1 (service (\<lambda>_. Some 50)) (Call_generateLyrics ''hi'') 0
       (snd (init (service (\<lambda>_. Some 50)) ''A'' 0 (snd (new_SunoApi boot)))) =
     licenseCheckDecorator 1 (service (\<lambda>_. Some 50)) (Call_generateLyrics ''hi'') 0
       (snd (init (service (\<lambda>_. Some 50)) ''A'' 0 (snd (new_SunoApi boot))))"
proof -
  let ?u = "service (\<lambda>_. Some 50)"
  have i: "init ?u ''A'' 0 (snd (new_SunoApi boot)) =
      (Inr 0, snd (init ?u ''A'' 0 (snd (new_SunoApi boot))))"
    by (rule pair_fst) (simp add: session_defs service_defs boot_def Let_def)
  from setupBindings_wraps_all_five [OF i, of 1 "Call_generateLyrics ''hi''"] show ?thesis
    by simp
qed

text \<open>
  C6, as the claim has it, fails: a call of \<^verbatim>\<open>extendAudio\<close> and a call of
  \<^verbatim>\<open>generateLyrics\<close> on an initialised session each begin with a token renewal and
  the billing query, and with a quota of 5 on the active account and 50 on the
  candidate \<open>b\<close>, \<^verbatim>\<open>extendAudio\<close> makes \<open>b\<close> the active license.
\<close>

theorem lyrics_and_extend_are_guarded:
  "trace (snd (the (invoke 1 (service (\<lambda>_. Some 50))
       (Call_extendAudio ''clip'' None None None None None) 0 (live [])))) =
     trace (live []) @
       [Http ''A'' (ClerkTokens ''sess'' (Some ''5.0'')), Http ''A'' BillingInfo,
        Http ''A'' (ExtendV2 \<lparr>continue_clip_id = ''clip'', continue_at = ''0'',
           e_mv = ''chirp-v3-5'', e_prompt = [], e_tags = [], e_title = []\<rparr>)] \<and>
   trace (snd (the (invoke 1 (service (\<lambda>_. Some 50)) (Call_generateLyrics ''hi'') 0 (live [])))) =
     trace (live []) @
       [Http ''A'' (ClerkTokens ''sess'' (Some ''5.0'')), Http ''A'' BillingInfo,
        Http ''A'' (ClerkTokens ''sess'' (Some ''5.0'')), Http ''A'' (LyricsPost ''hi''),
        Http ''A'' (LyricsGet ''L1'')] \<and>
   store_writes (snd (the (invoke 2 (service (\<lambda>c. if c = ''A'' then Some 5 else Some 50))
       (Call_extendAudio ''clip'' None None None None None) 0
       (live [\<lparr>account = ''b'', licenseKey = ''B''\<rparr>])))) = [\<lparr>account = ''b'', licenseKey = ''B''\<rparr>]"
  by (simp add: method_defs session_defs service_defs live_fields lyrics_poll.simps Let_def
      numeral_2_eq_2)

section \<open>The two thresholds\<close>

lemmas ts_defs = ts_get_def change_Account_def ts_newSunoApi_def ts_init_def ts_live_def

lemma ts_live_fields:
  "heap ts_live 0 = \<lparr>client = Some ''A'', clerkVersion = Some ''5.0'', sid = Some ''sess'',
      currentToken = Some ''jwt'', wrapped = (\<lambda>m. False)\<rparr>"
  "fresh ts_live = 1" "clock ts_live = 0" "ticks ts_live = 3"
  "trace ts_live = [Http ''A'' ClerkJsPackage,
     Http ''A'' (ClerkClient (Some ''5.0'')), Http ''A'' (ClerkTokens ''sess'' (Some ''5.0''))]"
  by (simp_all add: ts_defs service_defs session_defs boot_def Let_def)

text \<open>
  C5, as the code has it. With a quota answer \<open>q\<close>, the decorator of the generation
  methods runs the method on the session it was called on exactly when \<open>10 \<le> q\<close>, and
  goes through the sheet's candidates when \<open>q < 10\<close>; the guard of the feed fetch,
  \<^verbatim>\<open>change_Account\<close> in \<^verbatim>\<open>SunoApi.ts\<close>, fetches on the session it was called on
  exactly when \<open>44 \<le> q\<close> and changes to the other cookie when \<open>q < 44\<close>. Both numbers
  are literals; the one of the feed fetch is the higher.
\<close>

theorem thresholds_by_path:
  assumes "get_credits u False this w = (Inr cr, w1)" and "credits_left cr = Some q"
  shows "(10 \<le> q \<longrightarrow> licenseCheckDecorator (Suc n) u mth this w = proto u mth this w1) \<and>
         (q < 10 \<longrightarrow> licenseCheckDecorator (Suc n) u mth this w =
              for_licKeys n u mth this (store_keys w1) (snd (getSunoLicenseKeys w1))) \<and>
         (44 \<le> q \<longrightarrow> ts_get u new_Cookie ids this w = get u ids this w1) \<and>
         (q < 44 \<longrightarrow> ts_get u new_Cookie ids this w =
              (case ts_newSunoApi u new_Cookie w1 of
                 (Inl e, w3) \<Rightarrow> (Inl e, w3)
               | (Inr api, w3) \<Rightarrow>
                  (case get_credits u False api w3 of
                     (Inl e, w4) \<Rightarrow> (Inl e, w4)
                   | (Inr credits2, w4) \<Rightarrow> get u ids api w4)))"
  using assms
  by (simp add: ts_get_def change_Account_def ts_newSunoApi_def getSunoLicenseKeys_def
      split: prod.splits)

theorem thresholds_by_path_witness:
  "licenseCheckDecorator 1 (service (\<lambda>_. Some 20)) (Call_generate ''p'' False None False) 0 (live []) =
     proto (service (\<lambda>_. Some 20)) (Call_generate ''p'' False None False) 0
       (snd (get_credits (service (\<lambda>_. Some 20)) False 0 (live []))) \<and>
   ts_get (service (\<lambda>_. Some 20)) ''N'' None 0 (live []) =
     (case ts_newSunoApi (service (\<lambda>_. Some 20)) ''N''
             (snd (get_credits (service (\<lambda>_. Some 20)) False 0 (live []))) of
        (Inl e, w3) \<Rightarrow> (Inl e, w3)
      | (Inr api, w3) \<Rightarrow>
         (case get_credits (service (\<lambda>_. Some 20)) False api w3 of
            (Inl e, w4) \<Rightarrow> (Inl e, w4)
          | (Inr credits2, w4) \<Rightarrow> get (service (\<lambda>_. Some 20)) None api w4))"
proof -
  let ?u = "service (\<lambda>_. Some 20)"
  have q: "get_credits ?u False 0 (live []) =
      (Inr \<lparr>credits_left = Some 20, period = None, monthly_limit = None, monthly_usage = None\<rparr>,
       snd (get_credits ?u False 0 (live [])))"
    by (rule pair_fst)
      (simp add: get_credits_def keepAlive_def exchange_def live_fields service_defs Let_def)
  have c: "credits_left \<lparr>credits_left = Some 20, period = None, monthly_limit = None,
      monthly_usage = None\<rparr> = Some 20" by simp
  from thresholds_by_path [OF q c, of 0 "Call_generate ''p'' False None False" "''N''" None]
  show ?thesis by simp
qed

text \<open>
  C5, as the claim has it, fails: with a quota of 20 the feed fetch changes the
  account (a session is initialised on the new cookie \<open>N\<close> and the feed is fetched
  there), while a decorated generation method runs on the session it was called on.
  So the threshold of the feed fetch is above 20 and that of generation is not.
\<close>

theorem feed_threshold_is_the_higher:
  "trace (snd (ts_get (service (\<lambda>_. Some 20)) ''N'' None 0 ts_live)) =
     trace ts_live @
       [Http ''A'' (ClerkTokens ''sess'' (Some ''5.0'')), Http ''A'' BillingInfo,
        Http ''N'' ClerkJsPackage, Http ''N'' (ClerkClient (Some ''5.0'')),
        Http ''N'' (ClerkTokens ''sess'' (Some ''5.0'')),
        Http ''N'' (ClerkTokens ''sess'' (Some ''5.0'')), Http ''N'' BillingInfo,
        Http ''N'' (ClerkTokens ''sess'' (Some ''5.0'')), Http ''N'' (Feed None)] \<and>
   trace (snd (the (invoke 1 (service (\<lambda>_. Some 20)) (Call_concatenate ''clip'') 0 (live [])))) =
     trace (live []) @
       [Http ''A'' (ClerkTokens ''sess'' (Some ''5.0'')), Http ''A'' BillingInfo,
        Http ''A'' (ClerkTokens ''sess'' (Some ''5.0'')), Http ''A'' (ConcatV2 ''clip'')]"
  by (simp add: ts_get_def change_Account_def ts_init_def ts_live_fields method_defs session_defs
      service_defs live_fields Let_def)

section \<open>The deadline of the wait\<close>

lemma exchange_clock_le:
  "exchange u t c rq ep w = (r, w') \<Longrightarrow> clock w' \<le> clock w + latency u (ticks w)"
  by (auto simp: exchange_def Let_def split: option.splits if_splits)

lemma sleep_1_2_le: "clock (sleep u 1 (Some 2) w) \<le> clock w + 3000"
proof -
  have "math_random u (ticks w) mod 3 \<le> 2" by arith
  then show ?thesis by (simp add: sleep_def Let_def)
qed

lemma sleep_3_6_le: "clock (sleep u 3 (Some 6) w) \<le> clock w + 7000"
proof -
  have "math_random u (ticks w) mod 5 \<le> 4" by arith
  then show ?thesis by (simp add: sleep_def Let_def)
qed

lemma keepAlive_clock_le:
  assumes "keepAlive u b this w = (r, w')" and "\<forall>n. latency u n \<le> L"
  shows "clock w' \<le> clock w + L + (if b then 3000 else 0)"
proof -
  have e: "clock v \<le> clock w + L" if "exchange u t c rq ep w = (x, v)" for t c rq x v
    and ep :: "nat \<Rightarrow> string option reply"
    using exchange_clock_le [OF that] assms(2) by (meson add_left_mono order_trans)
  have s: "clock (sleep u 1 (Some 2) v) \<le> clock w + L + 3000" if "clock v \<le> clock w + L" for v
    using sleep_1_2_le [of u v] that by linarith
  show ?thesis
    using assms(1) unfolding keepAlive_def Let_def
    by (auto split: option.splits if_splits prod.splits reply.splits dest: e s [OF e])
qed

lemma get_clock_le:
  assumes "get u ids this w = (r, w')" and "\<forall>n. latency u n \<le> L"
  shows "clock w' \<le> clock w + 2 * L"
proof -
  obtain x w1 where k: "keepAlive u False this w = (x, w1)" by (cases "keepAlive u False this w")
  have k1: "clock w1 \<le> clock w + L" using keepAlive_clock_le [OF k assms(2)] by simp
  have e: "clock v \<le> clock w + 2 * L" if "exchange u t c rq ep w1 = (y, v)" for t c rq y v
    and ep :: "nat \<Rightarrow> clip list reply"
  proof -
    have "clock v \<le> clock w1 + latency u (ticks w1)" using that by (rule exchange_clock_le)
    also have "\<dots> \<le> clock w1 + L" using assms(2) by simp
    finally show ?thesis using k1 by linarith
  qed
  show ?thesis
    using assms(1) k k1 unfolding get_def
    by (auto split: option.splits prod.splits reply.splits sum.splits dest: e)
qed

lemma wait_audio_loop_deadline:
  assumes "\<forall>n. latency u n \<le> L"
  shows "clock (snd (wait_audio_loop u this ids st lastR w))
           \<le> max (clock w) (st + 99999 + 10000 + 3 * L)"
  using assms
proof (induction u this ids st lastR w rule: wait_audio_loop.induct)
  case (1 u this songIds startTime lastResponse w)
  let ?B = "startTime + 99999 + 10000 + 3 * L"
  note unfold = wait_audio_loop.simps [of u this songIds startTime lastResponse w]
  show ?case
  proof (cases "clock w - startTime < 100000")
    case False
    then show ?thesis by (simp add: unfold)
  next
    case True
    then have cw: "clock w \<le> startTime + 99999" by linarith
    obtain x w1 where g: "get u (Some songIds) this w = (x, w1)" by (cases "get u (Some songIds) this w")
    have c1: "clock w1 \<le> clock w + 2 * L" using g "1.prems" by (rule get_clock_le)
    show ?thesis
    proof (cases x)
      case (Inl e)
      with True g c1 cw show ?thesis by (simp add: unfold)
    next
      case (Inr response)
      show ?thesis
      proof (cases "list_all (\<lambda>audio. status audio = ''streaming'' \<or> status audio = ''complete'') response
                   \<or> list_all (\<lambda>audio. status audio = ''error'') response")
        case fin: True
        have "wait_audio_loop u this songIds startTime lastResponse w = (Inr response, w1)"
          using True g Inr fin by (auto simp: unfold)
        with c1 cw show ?thesis by simp
      next
        case nt: False
        obtain y w3 where k: "keepAlive u True this (sleep u 3 (Some 6) w1) = (y, w3)"
          by (cases "keepAlive u True this (sleep u 3 (Some 6) w1)")
        have "clock w3 \<le> clock (sleep u 3 (Some 6) w1) + L + 3000"
          using keepAlive_clock_le [OF k "1.prems"] by simp
        with sleep_3_6_le [of u w1] c1 cw have c3: "clock w3 \<le> ?B" by linarith
        show ?thesis
        proof (cases y)
          case (Inl e)
          have "wait_audio_loop u this songIds startTime lastResponse w = (Inl e, w3)"
            using True g Inr nt k Inl by (auto simp: unfold)
          with c3 show ?thesis by simp
        next
          case yr: (Inr z)
          have eq: "wait_audio_loop u this songIds startTime lastResponse w =
              wait_audio_loop u this songIds startTime response w3"
            using True g Inr nt k yr by (auto simp: unfold)
          have "clock (snd (wait_audio_loop u this songIds startTime response w3)) \<le> max (clock w3) ?B"
            using "1.IH" [OF True g [symmetric] Inr nt k [symmetric] yr "1.prems"] .
          with c3 eq show ?thesis by simp
        qed
      qed
    qed
  qed
qed

lemma wait_audio_loop_returns:
  assumes "wait_audio_loop u this ids st lastR w = (Inr r, w')"
  shows "(r = lastR \<and> w' = w \<and> \<not> clock w - st < 100000) \<or>
         (\<exists>w0. get u (Some ids) this w0 = (Inr r, w') \<and> clock w0 - st < 100000 \<and>
            (list_all (\<lambda>audio. status audio = ''streaming'' \<or> status audio = ''complete'') r
             \<or> list_all (\<lambda>audio. status audio = ''error'') r)) \<or>
         (\<exists>w0 w1. get u (Some ids) this w0 = (Inr r, w1) \<and> clock w0 - st < 100000 \<and>
            \<not> (list_all (\<lambda>audio. status audio = ''streaming'' \<or> status audio = ''complete'') r
               \<or> list_all (\<lambda>audio. status audio = ''error'') r) \<and>
            keepAlive u True this (sleep u 3 (Some 6) w1) = (Inr (), w') \<and>
            \<not> clock w' - st < 100000)"
  using assms
proof (induction u this ids st lastR w rule: wait_audio_loop.induct)
  case (1 u this songIds startTime lastResponse w)
  note unfold = wait_audio_loop.simps [of u this songIds startTime lastResponse w]
  show ?case
  proof (cases "clock w - startTime < 100000")
    case False
    with "1.prems" show ?thesis by (simp add: unfold)
  next
    case True
    obtain x w1 where g: "get u (Some songIds) this w = (x, w1)" by (cases "get u (Some songIds) this w")
    show ?thesis
    proof (cases x)
      case (Inl e)
      with True g "1.prems" show ?thesis by (simp add: unfold)
    next
      case (Inr response)
      show ?thesis
      proof (cases "list_all (\<lambda>audio. status audio = ''streaming'' \<or> status audio = ''complete'') response
                   \<or> list_all (\<lambda>audio. status audio = ''error'') response")
        case fin: True
        have "wait_audio_loop u this songIds startTime lastResponse w = (Inr response, w1)"
          using True g Inr fin by (auto simp: unfold)
        with "1.prems" have "r = response" "w' = w1" by simp_all
        with g Inr fin True show ?thesis by blast
      next
        case nt: False
        obtain y w3 where k: "keepAlive u True this (sleep u 3 (Some 6) w1) = (y, w3)"
          by (cases "keepAlive u True this (sleep u 3 (Some 6) w1)")
        show ?thesis
        proof (cases y)
          case (Inl e)
          have "wait_audio_loop u this songIds startTime lastResponse w = (Inl e, w3)"
            using True g Inr nt k Inl by (auto simp: unfold)
          with "1.prems" show ?thesis by simp
        next
          case yr: (Inr z)
          have eq: "wait_audio_loop u this songIds startTime lastResponse w =
              wait_audio_loop u this songIds startTime response w3"
            using True g Inr nt k yr by (auto simp: unfold)
          with "1.prems" have p: "wait_audio_loop u this songIds startTime response w3 = (Inr r, w')"
            by simp
          from "1.IH" [OF True g [symmetric] Inr nt k [symmetric] yr p]
          consider (a) "r = response" "w' = w3" "\<not> clock w3 - startTime < 100000"
            | (b) "\<exists>w0. get u (Some songIds) this w0 = (Inr r, w') \<and> clock w0 - startTime < 100000 \<and>
            (list_all (\<lambda>audio. status audio = ''streaming'' \<or> status audio = ''complete'') r
             \<or> list_all (\<lambda>audio. status audio = ''error'') r)"
            | (c) "\<exists>w0 w1. get u (Some songIds) this w0 = (Inr r, w1) \<and> clock w0 - startTime < 100000 \<and>
            \<not> (list_all (\<lambda>audio. status audio = ''streaming'' \<or> status audio = ''complete'') r
               \<or> list_all (\<lambda>audio. status audio = ''error'') r) \<and>
            keepAlive u True this (sleep u 3 (Some 6) w1) = (Inr (), w') \<and>
            \<not> clock w' - startTime < 100000"
            by blast
          then show ?thesis
          proof cases
            case a
            have "get u (Some songIds) this w = (Inr r, w1)" using g Inr a(1) by simp
            moreover have "keepAlive u True this (sleep u 3 (Some 6) w1) = (Inr (), w')"
              using k yr a(2) by simp
            ultimately show ?thesis using nt a True by blast
          next
            case b
            then show ?thesis by blast
          next
            case c
            then show ?thesis by blast
          qed
        qed
      qed
    qed
  qed
qed

text \<open>
  C8, as the code has it. When no exchange with the service takes more than \<open>L\<close>
  milliseconds, the wait returns or throws less than \<open>100000 + 10000 + 3 * L\<close>
  milliseconds after it was entered: the deadline is looked at only at the head of a
  round, and a round is a status fetch (a token renewal and the feed request), a sleep
  of 3 to 6 seconds (7 when the draw rounds up), and a token renewal followed by its
  own sleep of 1 to 2 seconds (3 when the draw rounds up). What it returns is what a
  status fetch answered: either a snapshot in which every clip is streaming or
  complete, or every clip is in error, returned in the world that fetch left, begun
  less than 100000 milliseconds after the entry; or, the deadline having passed, a
  snapshot that is not of that kind, answered by the last fetch of the run: the fetch
  began before the deadline, and the sleep and the token renewal that followed it left
  the world in which the wait returns, at least 100000 milliseconds after the entry.
\<close>

theorem wait_audio_deadline:
  assumes "\<forall>n. latency u n \<le> L"
  shows "clock (snd (wait_audio u this songIds w)) < clock w + 100000 + 10000 + 3 * L \<and>
    (\<forall>r w'. wait_audio u this songIds w = (Inr r, w') \<longrightarrow>
       (\<exists>w0. get u (Some songIds) this w0 = (Inr r, w') \<and> clock w0 - clock w < 100000 \<and>
          (list_all (\<lambda>audio. status audio = ''streaming'' \<or> status audio = ''complete'') r
           \<or> list_all (\<lambda>audio. status audio = ''error'') r)) \<or>
       (\<exists>w0 w1. get u (Some songIds) this w0 = (Inr r, w1) \<and> clock w0 - clock w < 100000 \<and>
          \<not> (list_all (\<lambda>audio. status audio = ''streaming'' \<or> status audio = ''complete'') r
             \<or> list_all (\<lambda>audio. status audio = ''error'') r) \<and>
          keepAlive u True this (sleep u 3 (Some 6) w1) = (Inr (), w') \<and>
          100000 \<le> clock w' - clock w))"
proof (intro conjI allI impI)
  have "clock (sleep u 5 (Some 5) w) = clock w + 5000" by (simp add: sleep_def)
  with wait_audio_loop_deadline [OF assms, of this songIds "clock w" "[]" "sleep u 5 (Some 5) w"]
  show "clock (snd (wait_audio u this songIds w)) < clock w + 100000 + 10000 + 3 * L"
    by (simp add: wait_audio_def)
next
  fix r w'
  assume "wait_audio u this songIds w = (Inr r, w')"
  then have p: "wait_audio_loop u this songIds (clock w) [] (sleep u 5 (Some 5) w) = (Inr r, w')"
    by (simp add: wait_audio_def)
  have c: "clock (sleep u 5 (Some 5) w) - clock w < 100000" by (simp add: sleep_def)
  from wait_audio_loop_returns [OF p] c
  show "(\<exists>w0. get u (Some songIds) this w0 = (Inr r, w') \<and> clock w0 - clock w < 100000 \<and>
          (list_all (\<lambda>audio. status audio = ''streaming'' \<or> status audio = ''complete'') r
           \<or> list_all (\<lambda>audio. status audio = ''error'') r)) \<or>
       (\<exists>w0 w1. get u (Some songIds) this w0 = (Inr r, w1) \<and> clock w0 - clock w < 100000 \<and>
          \<not> (list_all (\<lambda>audio. status audio = ''streaming'' \<or> status audio = ''complete'') r
             \<or> list_all (\<lambda>audio. status audio = ''error'') r) \<and>
          keepAlive u True this (sleep u 3 (Some 6) w1) = (Inr (), w') \<and>
          100000 \<le> clock w' - clock w)"
    by (auto simp: not_less)
qed

lemma stalled_fields:
  "latency stalled n = 0" "ep_tokens stalled n c sd v = Reply (Some ''jwt'')"
  "ep_feed stalled n c t ids = Reply [queued]"
  by (simp_all add: stalled_def service_defs)

lemma sleep_1_2_eq:
  "heap (sleep u (Suc 0) (Some 2) w) = heap w \<and>
   clock (sleep u (Suc 0) (Some 2) w) = clock w + (1 + math_random u (ticks w) mod 3) * 1000 \<and>
   ticks (sleep u (Suc 0) (Some 2) w) = Suc (ticks w)"
  by (simp add: sleep_def Let_def numeral_2_eq_2)

lemma stalled_get:
  assumes "heap w 0 = heap (live []) 0"
  shows "fst (get stalled ids 0 w) = Inr [feed_info queued] \<and>
         heap (snd (get stalled ids 0 w)) 0 = heap (live []) 0 \<and>
         clock (snd (get stalled ids 0 w)) = clock w \<and>
         ticks (snd (get stalled ids 0 w)) = ticks w + 2"
  using assms
  by (simp add: get_def keepAlive_def exchange_def stalled_fields live_fields Let_def)

lemma stalled_keepAlive:
  assumes "heap w 0 = heap (live []) 0"
  shows "fst (keepAlive stalled True 0 w) = Inr () \<and>
         heap (snd (keepAlive stalled True 0 w)) 0 = heap (live []) 0 \<and>
         clock (snd (keepAlive stalled True 0 w)) =
           clock w + (1 + math_random stalled (Suc (ticks w)) mod 3) * 1000 \<and>
         ticks (snd (keepAlive stalled True 0 w)) = ticks w + 2"
  using assms
  by (simp add: keepAlive_def exchange_def sleep_1_2_eq stalled_fields live_fields Let_def)

lemma sleep_3_6_eq:
  "heap (sleep u 3 (Some 6) w) = heap w \<and>
   clock (sleep u 3 (Some 6) w) = clock w + (3 + math_random u (ticks w) mod 5) * 1000 \<and>
   ticks (sleep u 3 (Some 6) w) = ticks w + 1"
  by (simp add: sleep_def Let_def)

lemma stalled_round:
  assumes h: "heap w 0 = heap (live []) 0" and c: "clock w - st < 100000"
  shows "\<exists>w'. wait_audio_loop stalled 0 ids st lastR w =
               wait_audio_loop stalled 0 ids st [feed_info queued] w' \<and>
           heap w' 0 = heap (live []) 0 \<and>
           clock w' = clock w + (3 + math_random stalled (Suc (Suc (ticks w))) mod 5) * 1000
                        + (1 + math_random stalled (Suc (Suc (Suc (Suc (ticks w))))) mod 3) * 1000 \<and>
           ticks w' = ticks w + 5"
proof -
  let ?g = "get stalled (Some ids) 0 w"
  let ?s = "sleep stalled 3 (Some 6) (snd ?g)"
  let ?k = "keepAlive stalled True 0 ?s"
  note g = stalled_get [OF h, of "Some ids"]
  have hs: "heap ?s 0 = heap (live []) 0" using g sleep_3_6_eq [of stalled "snd ?g"] by simp
  note k = stalled_keepAlive [OF hs]
  have ge: "?g = (Inr [feed_info queued], snd ?g)" using g by (intro pair_fst) simp
  have ke: "?k = (Inr (), snd ?k)" using k by (intro pair_fst) simp
  have "wait_audio_loop stalled 0 ids st lastR w =
        wait_audio_loop stalled 0 ids st [feed_info queued] (snd ?k)"
    apply (subst wait_audio_loop.simps)
    apply (subst ge)
    apply (simp add: c feed_info_def queued_def)
    apply (subst ke)
    apply simp
    done
  moreover have "clock (snd ?k) = clock w + (3 + math_random stalled (Suc (Suc (ticks w))) mod 5) * 1000
                        + (1 + math_random stalled (Suc (Suc (Suc (Suc (ticks w))))) mod 3) * 1000"
    using k g sleep_3_6_eq [of stalled "snd ?g"] by (simp add: add.commute add.left_commute)
  moreover have "ticks (snd ?k) = ticks w + 5"
    using k g sleep_3_6_eq [of stalled "snd ?g"] by simp
  ultimately show ?thesis using k by blast
qed


lemma stalled_random: "8 \<le> n \<Longrightarrow> math_random stalled n = 13" "n < 8 \<Longrightarrow> math_random stalled n = 1"
  by (simp_all add: stalled_def service_defs)

lemma ceil_step: "0 < (d::nat) \<Longrightarrow> (d + 7999) div 8000 = Suc ((d - 8000 + 7999) div 8000)"
proof (cases "d \<le> 8000")
  case True
  assume "0 < d"
  with True have "(d + 7999) div 8000 = 1" by simp
  with True show ?thesis by simp
next
  case False
  then have "d + 7999 = (d - 8000 + 7999) + 8000" by simp
  then have "(d + 7999) div 8000 = ((d - 8000 + 7999) + 8000) div 8000" by simp
  also have "\<dots> = Suc ((d - 8000 + 7999) div 8000)" by (simp only: div_add_self2)
  finally show ?thesis .
qed

lemma stalled_settles:
  assumes "heap w 0 = heap (live []) 0" and "6 \<le> ticks w"
  shows "clock (snd (wait_audio_loop stalled 0 ids st lastR w)) =
           clock w + 8000 * ((st + 100000 - clock w + 7999) div 8000)"
  using assms
proof (induction "st + 100000 - clock w" arbitrary: w lastR rule: less_induct)
  case less
  show ?case
  proof (cases "clock w - st < 100000")
    case False
    then have "st + 100000 - clock w = 0" by simp
    with False show ?thesis by (simp add: wait_audio_loop.simps [of stalled 0 ids st lastR w])
  next
    case True
    from stalled_round [OF less.prems(1) True, of ids lastR] obtain w' where
      eq: "wait_audio_loop stalled 0 ids st lastR w =
             wait_audio_loop stalled 0 ids st [feed_info queued] w'"
      and h: "heap w' 0 = heap (live []) 0"
      and c: "clock w' = clock w + (3 + math_random stalled (Suc (Suc (ticks w))) mod 5) * 1000
                        + (1 + math_random stalled (Suc (Suc (Suc (Suc (ticks w))))) mod 3) * 1000"
      and t: "ticks w' = ticks w + 5" by blast
    have c8: "clock w' = clock w + 8000"
      using c less.prems(2) by (simp add: stalled_random)
    define d where "d = st + 100000 - clock w"
    have d: "0 < d" using True unfolding d_def by linarith
    have m: "st + 100000 - clock w' < st + 100000 - clock w" using c8 d unfolding d_def by linarith
    have t6: "6 \<le> ticks w'" using t less.prems(2) by simp
    have e1: "st + 100000 - clock w' = d - 8000" unfolding d_def using c8 by simp
    have "clock (snd (wait_audio_loop stalled 0 ids st [feed_info queued] w')) =
            clock w' + 8000 * ((st + 100000 - clock w' + 7999) div 8000)"
      using m h t6 by (rule less.hyps)
    then have "clock (snd (wait_audio_loop stalled 0 ids st [feed_info queued] w')) =
            clock w' + 8000 * ((d - 8000 + 7999) div 8000)"
      by (simp only: e1)
    then have "clock (snd (wait_audio_loop stalled 0 ids st lastR w)) =
            clock w + 8000 + 8000 * ((d - 8000 + 7999) div 8000)"
      by (simp only: eq c8)
    also have "\<dots> = clock w + 8000 * ((d + 7999) div 8000)"
      using ceil_step [OF d] by simp
    finally show ?thesis unfolding d_def .
  qed
qed

lemma stalled_overrun:
  "clock (snd (wait_audio stalled 0 [''song''] (live []))) = clock (live []) + 107000"
proof -
  let ?w0 = "sleep stalled 5 (Some 5) (live [])"
  have w0: "heap ?w0 0 = heap (live []) 0" "clock ?w0 = 5000" "ticks ?w0 = 3"
    by (simp_all add: sleep_def live_fields)
  have "clock ?w0 - clock (live []) < 100000" by (simp add: w0 live_fields)
  from stalled_round [OF w0(1) this, of "[''song'']" "[]"] obtain w' where
    eq: "wait_audio_loop stalled 0 [''song''] (clock (live [])) [] ?w0 =
           wait_audio_loop stalled 0 [''song''] (clock (live [])) [feed_info queued] w'"
    and h: "heap w' 0 = heap (live []) 0"
    and c: "clock w' = clock ?w0 + (3 + math_random stalled (Suc (Suc (ticks ?w0))) mod 5) * 1000
                      + (1 + math_random stalled (Suc (Suc (Suc (Suc (ticks ?w0))))) mod 3) * 1000"
    and t: "ticks w' = ticks ?w0 + 5" by blast
  have c11: "clock w' = 11000" using c by (simp add: w0 stalled_random)
  have t8: "6 \<le> ticks w'" using t by (simp add: w0)
  from stalled_settles [OF h t8, of "[''song'']" "clock (live [])" "[feed_info queued]"] eq c11
  show ?thesis by (simp add: wait_audio_def live_fields)
qed

lemma stalled_result:
  assumes "heap w 0 = heap (live []) 0"
  shows "fst (wait_audio_loop stalled 0 ids st [feed_info queued] w) = Inr [feed_info queued]"
  using assms
proof (induction "st + 100000 - clock w" arbitrary: w rule: less_induct)
  case less
  show ?case
  proof (cases "clock w - st < 100000")
    case False
    then show ?thesis
      by (simp add: wait_audio_loop.simps [of stalled 0 ids st "[feed_info queued]" w])
  next
    case True
    from stalled_round [OF less.prems(1) True, of ids "[feed_info queued]"] obtain w' where
      eq: "wait_audio_loop stalled 0 ids st [feed_info queued] w =
             wait_audio_loop stalled 0 ids st [feed_info queued] w'"
      and h: "heap w' 0 = heap (live []) 0"
      and c: "clock w' = clock w + (3 + math_random stalled (Suc (Suc (ticks w))) mod 5) * 1000
                        + (1 + math_random stalled (Suc (Suc (Suc (Suc (ticks w))))) mod 3) * 1000"
      by blast
    have "clock w + 4000 \<le> clock w'" using c by simp
    with True have "st + 100000 - clock w' < st + 100000 - clock w" by linarith
    then have "fst (wait_audio_loop stalled 0 ids st [feed_info queued] w') = Inr [feed_info queued]"
      using h by (rule less.hyps)
    with eq show ?thesis by simp
  qed
qed

theorem wait_audio_deadline_witness:
  "fst (wait_audio stalled 0 [''song''] (live [])) = Inr [feed_info queued] \<and>
   clock (snd (wait_audio stalled 0 [''song''] (live []))) < clock (live []) + 110000 \<and>
   100000 \<le> clock (snd (wait_audio stalled 0 [''song''] (live []))) - clock (live []) \<and>
   (\<exists>w0 w1. clock w0 - clock (live []) < 100000 \<and>
      get stalled (Some [''song'']) 0 w0 = (Inr [feed_info queued], w1) \<and>
      keepAlive stalled True 0 (sleep stalled 3 (Some 6) w1) =
        (Inr (), snd (wait_audio stalled 0 [''song''] (live []))))"
proof -
  let ?r = "wait_audio stalled 0 [''song''] (live [])"
  have l: "\<forall>n. latency stalled n \<le> 0" by (simp add: stalled_fields)
  have w0: "heap (sleep stalled 5 (Some 5) (live [])) 0 = heap (live []) 0"
    by (simp add: sleep_def)
  have f: "fst ?r = Inr [feed_info queued]"
  proof -
    have c: "clock (sleep stalled 5 (Some 5) (live [])) - clock (live []) < 100000"
      by (simp add: sleep_def)
    from stalled_round [OF w0 c, of "[''song'']" "[]"] obtain w' where
      eq: "wait_audio_loop stalled 0 [''song''] (clock (live [])) [] (sleep stalled 5 (Some 5) (live [])) =
             wait_audio_loop stalled 0 [''song''] (clock (live [])) [feed_info queued] w'"
      and h: "heap w' 0 = heap (live []) 0" by blast
    from stalled_result [OF h, of "[''song'']" "clock (live [])"] eq
    show ?thesis by (simp add: wait_audio_def)
  qed
  then have e: "?r = (Inr [feed_info queued], snd ?r)" by (rule pair_fst)
  have nt: "\<not> (list_all (\<lambda>audio. status audio = ''streaming'' \<or> status audio = ''complete'') [feed_info queued]
             \<or> list_all (\<lambda>audio. status audio = ''error'') [feed_info queued])"
    by (simp add: feed_info_def queued_def)
  note t = wait_audio_deadline [OF l, of 0 "[''song'']" "live []"]
  from t have b: "clock (snd ?r) < clock (live []) + 110000" by simp
  from t e have "(\<exists>w0. get stalled (Some [''song'']) 0 w0 = (Inr [feed_info queued], snd ?r) \<and>
          clock w0 - clock (live []) < 100000 \<and>
          (list_all (\<lambda>audio. status audio = ''streaming'' \<or> status audio = ''complete'') [feed_info queued]
           \<or> list_all (\<lambda>audio. status audio = ''error'') [feed_info queued])) \<or>
       (\<exists>w0 w1. get stalled (Some [''song'']) 0 w0 = (Inr [feed_info queued], w1) \<and>
          clock w0 - clock (live []) < 100000 \<and>
          \<not> (list_all (\<lambda>audio. status audio = ''streaming'' \<or> status audio = ''complete'') [feed_info queued]
             \<or> list_all (\<lambda>audio. status audio = ''error'') [feed_info queued]) \<and>
          keepAlive stalled True 0 (sleep stalled 3 (Some 6) w1) = (Inr (), snd ?r) \<and>
          100000 \<le> clock (snd ?r) - clock (live []))"
    by blast
  with nt obtain w0 w1 where
    "get stalled (Some [''song'']) 0 w0 = (Inr [feed_info queued], w1)"
    "clock w0 - clock (live []) < 100000"
    "keepAlive stalled True 0 (sleep stalled 3 (Some 6) w1) = (Inr (), snd ?r)"
    "100000 \<le> clock (snd ?r) - clock (live [])"
    by blast
  with f b show ?thesis by blast
qed

lemma sleep_5_5_eq:
  "sleep u 5 (Some 5) w = w\<lparr>clock := clock w + 5000, trace := trace w @ [Slept 5000]\<rparr>"
  by (simp add: sleep_def)

lemma sleep_3_6_world:
  "sleep u 3 (Some 6) w = w\<lparr>clock := clock w + (3 + math_random u (ticks w) mod 5) * 1000,
     ticks := Suc (ticks w), trace := trace w @ [Slept ((3 + math_random u (ticks w) mod 5) * 1000)]\<rparr>"
  by (simp add: sleep_def Let_def)

lemma sleep_1_2_world:
  "sleep u (Suc 0) (Some 2) w = w\<lparr>clock := clock w + (1 + math_random u (ticks w) mod 3) * 1000,
     ticks := Suc (ticks w), trace := trace w @ [Slept ((1 + math_random u (ticks w) mod 3) * 1000)]\<rparr>"
  by (simp add: sleep_def Let_def numeral_2_eq_2)

lemma sluggish_fields:
  "latency sluggish n = (if n mod 5 = 4 then 0 else 20000)"
  "math_random sluggish n = (if n < 8 then 1 else 13)"
  "ep_tokens sluggish n c sd v = Reply (Some ''jwt'')"
  "ep_feed sluggish n c t ids = Reply [queued]"
  by (simp_all add: sluggish_def stalled_def service_defs)

lemma sluggish_overrun:
  "clock (snd (wait_audio sluggish 0 [''song''] (live []))) = clock (live []) + 147000"
  by (simp add: wait_audio_def wait_audio_loop.simps get_def keepAlive_def exchange_def
      sleep_5_5_eq sleep_3_6_world sleep_1_2_world sluggish_fields feed_info_def queued_def
      live_fields Let_def)

text \<open>
  C8, as the claim has it, fails even when the service answers at once: the first
  round takes 6 seconds and the next ones 8, so a round begins 99 seconds after the
  entry and the wait returns 107 seconds after it, later than the window of 100 seconds
  plus a poll interval of 6 seconds, the longest the specification gives. And it fails
  by more when the service is slow, whatever is counted as a poll interval: with token
  renewals of 20 seconds, which have no timeout, the wait returns 147 seconds after
  the entry. Neither run draws a sleep above the bounds given to \<^verbatim>\<open>sleep\<close>.
\<close>

theorem wait_audio_overruns:
  "clock (snd (wait_audio stalled 0 [''song''] (live []))) = clock (live []) + 107000 \<and>
   clock (snd (wait_audio sluggish 0 [''song''] (live []))) = clock (live []) + 147000"
  using stalled_overrun sluggish_overrun by simp

section \<open>The wait on an empty batch\<close>

lemma get_success_clock:
  assumes "get u ids this w = (Inr r, w')"
  shows "clock w' = clock w + latency u (ticks w) + latency u (Suc (ticks w))"
  using assms
  by (auto simp: get_def keepAlive_def exchange_def Let_def
      split: option.splits prod.splits reply.splits sum.splits if_splits)

text \<open>
  C10, as the code has it. \<^verbatim>\<open>every\<close> runs over what the feed answers, not over the
  ids that were submitted. When the first status fetch for the empty list of ids
  answers with an empty list, the wait returns that list in the world the fetch
  leaves: five seconds of sleep and the two exchanges of the fetch after it was
  entered.
\<close>

theorem empty_batch_returns_after_first_fetch:
  assumes "get u (Some []) this (sleep u 5 (Some 5) w) = (Inr [], w1)"
  shows "wait_audio u this [] w = (Inr [], w1) \<and>
         clock w1 = clock w + 5000 + latency u (ticks w) + latency u (Suc (ticks w))"
proof -
  let ?w0 = "sleep u 5 (Some 5) w"
  have w0: "clock ?w0 = clock w + 5000" "ticks ?w0 = ticks w" by (simp_all add: sleep_def)
  have "wait_audio_loop u this [] (clock w) [] ?w0 = (Inr [], w1)"
    by (subst wait_audio_loop.simps) (simp add: assms w0)
  moreover have "clock w1 = clock ?w0 + latency u (ticks ?w0) + latency u (Suc (ticks ?w0))"
    using assms by (rule get_success_clock)
  ultimately show ?thesis by (simp add: wait_audio_def w0)
qed

theorem empty_batch_returns_after_first_fetch_witness:
  "wait_audio (service (\<lambda>_. Some 50)) 0 [] (live []) =
     (Inr [], snd (get (service (\<lambda>_. Some 50)) (Some []) 0
                     (sleep (service (\<lambda>_. Some 50)) 5 (Some 5) (live [])))) \<and>
   clock (snd (get (service (\<lambda>_. Some 50)) (Some []) 0
                 (sleep (service (\<lambda>_. Some 50)) 5 (Some 5) (live [])))) = 5000"
proof -
  let ?u = "service (\<lambda>_. Some 50)"
  have g: "get ?u (Some []) 0 (sleep ?u 5 (Some 5) (live [])) =
      (Inr [], snd (get ?u (Some []) 0 (sleep ?u 5 (Some 5) (live []))))"
    by (rule pair_fst)
      (simp add: get_def keepAlive_def exchange_def sleep_def service_defs live_fields Let_def)
  from empty_batch_returns_after_first_fetch [OF g] show ?thesis
    by (simp add: live_fields service_defs)
qed

text \<open>
  C10, as the claim has it, fails when the feed answers the fetch for no ids with a
  clip that is not finished: the wait goes on to the deadline and returns that clip.
\<close>

theorem empty_batch_keeps_polling:
  "fst (wait_audio stalled 0 [] (live [])) = Inr [feed_info queued] \<and>
   clock (snd (wait_audio stalled 0 [] (live []))) = clock (live []) + 107000"
proof -
  let ?w0 = "sleep stalled 5 (Some 5) (live [])"
  have w0: "heap ?w0 0 = heap (live []) 0" "clock ?w0 = 5000" "ticks ?w0 = 3"
    by (simp_all add: sleep_def live_fields)
  have "clock ?w0 - clock (live []) < 100000" by (simp add: w0 live_fields)
  from stalled_round [OF w0(1) this, of "[]" "[]"] obtain w' where
    eq: "wait_audio_loop stalled 0 [] (clock (live [])) [] ?w0 =
           wait_audio_loop stalled 0 [] (clock (live [])) [feed_info queued] w'"
    and h: "heap w' 0 = heap (live []) 0"
    and c: "clock w' = clock ?w0 + (3 + math_random stalled (Suc (Suc (ticks ?w0))) mod 5) * 1000
                      + (1 + math_random stalled (Suc (Suc (Suc (Suc (ticks ?w0))))) mod 3) * 1000"
    and t: "ticks w' = ticks ?w0 + 5" by blast
  have c11: "clock w' = 11000" using c by (simp add: w0 stalled_random)
  have t8: "6 \<le> ticks w'" using t by (simp add: w0)
  from stalled_settles [OF h t8, of "[]" "clock (live [])" "[feed_info queued]"]
    stalled_result [OF h, of "[]" "clock (live [])"] eq c11
  show ?thesis by (simp add: wait_audio_def live_fields)
qed

section \<open>The lyrics loop\<close>

lemma exchange_reply:
  "exchange u None c rq ep w = (x, w') \<Longrightarrow> x = ep (ticks w)"
  by (simp add: exchange_def Let_def)

lemma lyrics_poll_complete:
  assumes "lyrics_poll u this g l w = Some y"
  shows "\<forall>l'. fst y = Inr l' \<longrightarrow> l_status l' = Some ''complete''"
proof (rule lyrics_poll.raw_induct
    [where P = "\<lambda>u this g l w y. \<forall>l'. fst y = Inr l' \<longrightarrow> l_status l' = Some ''complete''", OF _ assms],
    goal_cases)
  case (1 poll u this generateId lyricsResponse w y)
  note IH = "1"(1) and step = "1"(2)
  show ?case
  proof (cases "l_status lyricsResponse \<noteq> Some ''complete''")
    case False
    with step show ?thesis by auto
  next
    case True
    let ?w0 = "sleep u 2 None w"
    show ?thesis
    proof (cases "client (heap ?w0 this)")
      case None
      with step True show ?thesis by (auto simp: Let_def)
    next
      case (Some c)
      obtain x w1 where e: "exchange u None c (LyricsGet generateId)
            (\<lambda>n. ep_lyrics_get u n c (bearer (heap ?w0 this)) generateId) ?w0 = (x, w1)"
        by (cases "exchange u None c (LyricsGet generateId)
            (\<lambda>n. ep_lyrics_get u n c (bearer (heap ?w0 this)) generateId) ?w0")
      show ?thesis
      proof (cases x)
        case Rejected
        with step True Some e show ?thesis by (auto simp: Let_def)
      next
        case (Reply r)
        with step True Some e have "poll u this generateId r w1 = Some y"
          by (auto simp: Let_def)
        then show ?thesis by (rule IH)
      qed
    qed
  qed
qed

lemma lyrics_poll_diverges:
  assumes "lyrics_poll u this g l w = Some y"
  shows "\<not> (never_complete u \<and> l_status l \<noteq> Some ''complete'' \<and> client (heap w this) \<noteq> None)"
proof (rule lyrics_poll.raw_induct
    [where P = "\<lambda>u this g l w y.
       \<not> (never_complete u \<and> l_status l \<noteq> Some ''complete'' \<and> client (heap w this) \<noteq> None)",
     OF _ assms], goal_cases)
  case (1 poll u this generateId lyricsResponse w y)
  note IH = "1"(1) and step = "1"(2)
  show ?case
  proof
    assume a: "never_complete u \<and> l_status lyricsResponse \<noteq> Some ''complete'' \<and>
      client (heap w this) \<noteq> None"
    let ?w0 = "sleep u 2 None w"
    from a obtain c where c: "client (heap ?w0 this) = Some c" by (auto simp: sleep_heap)
    obtain x w1 where e: "exchange u None c (LyricsGet generateId)
          (\<lambda>n. ep_lyrics_get u n c (bearer (heap ?w0 this)) generateId) ?w0 = (x, w1)"
      by (cases "exchange u None c (LyricsGet generateId)
          (\<lambda>n. ep_lyrics_get u n c (bearer (heap ?w0 this)) generateId) ?w0")
    from a obtain r where "ep_lyrics_get u (ticks ?w0) c (bearer (heap ?w0 this)) generateId = Reply r"
      and r2: "l_status r \<noteq> Some ''complete''"
      unfolding never_complete_def by blast
    with exchange_reply [OF e] have r1: "x = Reply r" by simp
    note r = r1 r2
    have h1: "client (heap w1 this) \<noteq> None" using exchange_heap [OF e] c by simp
    from step a c e r have "poll u this generateId r w1 = Some y" by (simp add: Let_def)
    from IH [OF this] a r h1 show False by simp
  qed
qed


lemma sleep_2_eq:
  "heap (sleep u 2 None w) = heap w \<and> ticks (sleep u 2 None w) = ticks w \<and>
   trace (sleep u 2 None w) = trace w @ [Slept 2000] \<and> clock (sleep u 2 None w) = clock w + 2000"
  by (simp add: sleep_def)

lemma exchange_trace:
  "exchange u None c rq ep w = (x, w') \<Longrightarrow>
     trace w' = trace w @ [Http c rq] \<and> ticks w' = Suc (ticks w) \<and> heap w' = heap w"
  by (auto simp: exchange_def Let_def)

lemma exchange_clock:
  "exchange u None c rq ep w = (x, w') \<Longrightarrow> clock w' = clock w + latency u (ticks w)"
  by (auto simp: exchange_def Let_def)

lemma lyrics_poll_clock:
  assumes "lyrics_poll u this g l w = Some y"
  shows "\<forall>c. client (heap w this) = Some c \<longrightarrow>
           (\<exists>k. trace (snd y) = trace w @ concat (replicate k [Slept 2000, Http c (LyricsGet g)]) \<and>
                ticks (snd y) = ticks w + k \<and>
                clock (snd y) = clock w + (\<Sum>i<k. 2000 + latency u (ticks w + i)))"
proof (rule lyrics_poll.raw_induct
    [where P = "\<lambda>u this g l w y. \<forall>c. client (heap w this) = Some c \<longrightarrow>
           (\<exists>k. trace (snd y) = trace w @ concat (replicate k [Slept 2000, Http c (LyricsGet g)]) \<and>
                ticks (snd y) = ticks w + k \<and>
                clock (snd y) = clock w + (\<Sum>i<k. 2000 + latency u (ticks w + i)))", OF _ assms],
    goal_cases)
  case (1 poll u this generateId lyricsResponse w y)
  note IH = "1"(1) and step = "1"(2)
  show ?case
  proof (intro allI impI)
    fix c assume c: "client (heap w this) = Some c"
    let ?ev = "[Slept 2000, Http c (LyricsGet generateId)]"
    show "\<exists>k. trace (snd y) = trace w @ concat (replicate k ?ev) \<and> ticks (snd y) = ticks w + k \<and>
              clock (snd y) = clock w + (\<Sum>i<k. 2000 + latency u (ticks w + i))"
    proof (cases "l_status lyricsResponse \<noteq> Some ''complete''")
      case False
      with step have "snd y = w" by auto
      then have "trace (snd y) = trace w @ concat (replicate 0 ?ev) \<and> ticks (snd y) = ticks w + 0 \<and>
          clock (snd y) = clock w + (\<Sum>i<0. 2000 + latency u (ticks w + i))"
        by simp
      then show ?thesis by blast
    next
      case True
      let ?w0 = "sleep u 2 None w"
      have c0: "client (heap ?w0 this) = Some c" using c by (simp add: sleep_2_eq)
      obtain x w1 where e: "exchange u None c (LyricsGet generateId)
            (\<lambda>n. ep_lyrics_get u n c (bearer (heap ?w0 this)) generateId) ?w0 = (x, w1)"
        by (cases "exchange u None c (LyricsGet generateId)
            (\<lambda>n. ep_lyrics_get u n c (bearer (heap ?w0 this)) generateId) ?w0")
      have w1: "trace w1 = trace w @ ?ev" "ticks w1 = Suc (ticks w)" "heap w1 = heap w"
        "clock w1 = clock w + 2000 + latency u (ticks w)"
        using exchange_trace [OF e] exchange_clock [OF e] by (simp_all add: sleep_2_eq)
      show ?thesis
      proof (cases x)
        case Rejected
        with step True c0 e have "snd y = w1" by (auto simp: Let_def)
        with w1 have "trace (snd y) = trace w @ concat (replicate 1 ?ev) \<and> ticks (snd y) = ticks w + 1 \<and>
            clock (snd y) = clock w + (\<Sum>i<1. 2000 + latency u (ticks w + i))"
          by simp
        then show ?thesis by blast
      next
        case (Reply r)
        with step True c0 e have "poll u this generateId r w1 = Some y"
          by (auto simp: Let_def)
        from IH [OF this] c w1 obtain k where
          "trace (snd y) = trace w1 @ concat (replicate k ?ev)" "ticks (snd y) = ticks w1 + k"
          "clock (snd y) = clock w1 + (\<Sum>i<k. 2000 + latency u (ticks w1 + i))"
          by auto
        with w1 have "trace (snd y) = trace w @ concat (replicate (Suc k) ?ev) \<and>
            ticks (snd y) = ticks w + Suc k \<and>
            clock (snd y) = clock w + (\<Sum>i<Suc k. 2000 + latency u (ticks w + i))"
          by (simp add: sum.lessThan_Suc_shift del: sum.lessThan_Suc)
        then show ?thesis by blast
      qed
    qed
  qed
qed

lemma lyrics_poll_no_value:
  assumes "lyrics_poll u this g l w = Some y"
  shows "\<not> (no_complete u \<and> l_status l \<noteq> Some ''complete'' \<and> (\<exists>l'. fst y = Inr l'))"
proof (rule lyrics_poll.raw_induct
    [where P = "\<lambda>u this g l w y.
       \<not> (no_complete u \<and> l_status l \<noteq> Some ''complete'' \<and> (\<exists>l'. fst y = Inr l'))",
     OF _ assms], goal_cases)
  case (1 poll u this generateId lyricsResponse w y)
  note IH = "1"(1) and step = "1"(2)
  show ?case
  proof
    assume a: "no_complete u \<and> l_status lyricsResponse \<noteq> Some ''complete'' \<and>
      (\<exists>l'. fst y = Inr l')"
    let ?w0 = "sleep u 2 None w"
    show False
    proof (cases "client (heap ?w0 this)")
      case None
      with step a show ?thesis by (auto simp: Let_def)
    next
      case (Some c)
      obtain x w1 where e: "exchange u None c (LyricsGet generateId)
            (\<lambda>n. ep_lyrics_get u n c (bearer (heap ?w0 this)) generateId) ?w0 = (x, w1)"
        by (cases "exchange u None c (LyricsGet generateId)
            (\<lambda>n. ep_lyrics_get u n c (bearer (heap ?w0 this)) generateId) ?w0")
      show ?thesis
      proof (cases x)
        case Rejected
        with step a Some e show ?thesis by (auto simp: Let_def)
      next
        case (Reply r)
        with exchange_reply [OF e] a have r: "l_status r \<noteq> Some ''complete''"
          unfolding no_complete_def by metis
        from step a Some e Reply have "poll u this generateId r w1 = Some y"
          by (auto simp: Let_def)
        from IH [OF this] a r show ?thesis by simp
      qed
    qed
  qed
qed

lemma generateLyrics_no_value:
  assumes "no_complete u"
  shows "generateLyrics u prompt this w \<noteq> Some (Inr l', w')"
proof
  assume g: "generateLyrics u prompt this w = Some (Inr l', w')"
  then obtain c gid l n t w3 where p: "lyrics_poll u this gid l w3 = Some (Inr l', w')"
    and r: "ep_lyrics_get u n c t gid = Reply l"
    by (auto simp: generateLyrics_def split: prod.splits sum.splits option.splits reply.splits
        dest!: exchange_reply)
  from r assms have "l_status l \<noteq> Some ''complete''" unfolding no_complete_def by blast
  with lyrics_poll_no_value [OF p] assms show False by simp
qed

lemma generateLyrics_complete:
  assumes "generateLyrics u prompt this w = Some (Inr l', w')"
  shows "l_status l' = Some ''complete''"
proof -
  from assms obtain g l w3 where "lyrics_poll u this g l w3 = Some (Inr l', w')"
    by (auto simp: generateLyrics_def split: prod.splits sum.splits option.splits reply.splits)
  from lyrics_poll_complete [OF this] show ?thesis by simp
qed

lemma generateLyrics_diverges:
  assumes nc: "never_complete u" and k: "keepAlive u False this w = (Inr v, w1)"
    and c: "client (heap w1 this) = Some c"
    and p: "\<forall>n t. \<exists>i. ep_lyrics_post u n c t prompt = Reply i"
  shows "generateLyrics u prompt this w = None"
proof -
  obtain x2 w2 where e2: "exchange u None c (LyricsPost prompt)
        (\<lambda>n. ep_lyrics_post u n c (bearer (heap w1 this)) prompt) w1 = (x2, w2)"
    by (cases "exchange u None c (LyricsPost prompt)
        (\<lambda>n. ep_lyrics_post u n c (bearer (heap w1 this)) prompt) w1")
  from p exchange_reply [OF e2] obtain gid where x2: "x2 = Reply gid" by metis
  obtain x3 w3 where e3: "exchange u None c (LyricsGet gid)
        (\<lambda>n. ep_lyrics_get u n c (bearer (heap w2 this)) gid) w2 = (x3, w3)"
    by (cases "exchange u None c (LyricsGet gid)
        (\<lambda>n. ep_lyrics_get u n c (bearer (heap w2 this)) gid) w2")
  from nc obtain l where "ep_lyrics_get u (ticks w2) c (bearer (heap w2 this)) gid = Reply l"
    and l: "l_status l \<noteq> Some ''complete''" unfolding never_complete_def by blast
  with exchange_reply [OF e3] have x3: "x3 = Reply l" by simp
  have h3: "client (heap w3 this) \<noteq> None"
    using exchange_trace [OF e2] exchange_trace [OF e3] c by simp
  have "lyrics_poll u this gid l w3 = None"
  proof (cases "lyrics_poll u this gid l w3")
    case (Some y)
    from lyrics_poll_diverges [OF this] nc l h3 show ?thesis by simp
  qed simp
  with k c e2 x2 e3 x3 show ?thesis by (simp add: generateLyrics_def)
qed

lemma keepAlive_False_clock:
  assumes "keepAlive u False this w = (Inr v, w1)"
  shows "clock w1 = clock w + latency u (ticks w) \<and> ticks w1 = Suc (ticks w) \<and>
         client (heap w1 this) = client (heap w this)"
  using assms
  by (auto simp: keepAlive_def exchange_def Let_def split: option.splits if_splits reply.splits)

lemma generateLyrics_clock:
  assumes "generateLyrics u prompt this w = Some (Inr l', w')"
  shows "\<exists>k. ticks w' = ticks w + 3 + k \<and>
             clock w' = clock w + 2000 * k + (\<Sum>i<3 + k. latency u (ticks w + i))"
proof -
  from assms obtain v w1 c gid w2 r w3 where
    k: "keepAlive u False this w = (Inr v, w1)" and c: "client (heap w1 this) = Some c"
    and e2: "exchange u None c (LyricsPost prompt)
               (\<lambda>n. ep_lyrics_post u n c (bearer (heap w1 this)) prompt) w1 = (Reply gid, w2)"
    and e3: "exchange u None c (LyricsGet gid)
               (\<lambda>n. ep_lyrics_get u n c (bearer (heap w2 this)) gid) w2 = (Reply r, w3)"
    and p: "lyrics_poll u this gid r w3 = Some (Inr l', w')"
    by (auto simp: generateLyrics_def split: prod.splits sum.splits option.splits reply.splits)
  note k1 = keepAlive_False_clock [OF k]
  note t2 = exchange_trace [OF e2] and c2 = exchange_clock [OF e2]
  note t3 = exchange_trace [OF e3] and c3 = exchange_clock [OF e3]
  have w3: "ticks w3 = ticks w + 3"
    "clock w3 = clock w + latency u (ticks w) + latency u (Suc (ticks w)) + latency u (Suc (Suc (ticks w)))"
    "client (heap w3 this) = Some c"
    using k1 t2 c2 t3 c3 c by simp_all
  from lyrics_poll_clock [OF p] w3(3) obtain k where
    t: "ticks w' = ticks w3 + k"
    and cl: "clock w' = clock w3 + (\<Sum>i<k. 2000 + latency u (ticks w3 + i))" by auto
  have s1: "(\<Sum>i<k. 2000 + latency u (ticks w3 + i)) = 2000 * k + (\<Sum>i<k. latency u (ticks w + 3 + i))"
    by (simp add: sum.distrib w3(1))
  have s2: "(\<Sum>i<3 + k. latency u (ticks w + i)) =
      latency u (ticks w) + latency u (Suc (ticks w)) + latency u (Suc (Suc (ticks w)))
        + (\<Sum>i<k. latency u (ticks w + 3 + i))"
  proof -
    have e: "3 + k = Suc (Suc (Suc k))" by simp
    have "(\<Sum>i<Suc (Suc (Suc k)). f i) = f 0 + f (Suc 0) + f (Suc (Suc 0)) + (\<Sum>i<k. f (3 + i))"
      for f :: "nat \<Rightarrow> nat"
      by (simp add: sum.lessThan_Suc_shift numeral_3_eq_3 del: sum.lessThan_Suc)
    from this [of "\<lambda>i. latency u (ticks w + i)"] show ?thesis
      unfolding e by (simp add: add.assoc)
  qed
  have "ticks w' = ticks w + 3 + k" using t w3(1) by simp
  moreover have "clock w' = clock w + 2000 * k + (\<Sum>i<3 + k. latency u (ticks w + i))"
    using cl w3(2) s1 s2 by simp
  ultimately show ?thesis by blast
qed

text \<open>
  C9. \<^verbatim>\<open>generateLyrics\<close> returns a value only when a fetched status is
  \<open>complete\<close>: what it returns has that status, it returns nothing when the service
  never answers with it, and a response that has it is returned at once. It has no
  deadline: when the service answers every fetch and never with \<open>complete\<close>, the call
  does not return at all. Between two fetches of the loop there is exactly one sleep,
  of 2000 milliseconds, and no draw of a random number: a loop that ends after \<open>k\<close>
  fetches has added to the log \<open>k\<close> pairs of that sleep and a fetch, has made \<open>k\<close>
  exchanges, and has advanced the clock by \<open>k\<close> times 2000 milliseconds and by the
  time its \<open>k\<close> exchanges took. A call that returns a value has made three exchanges
  (the token renewal, the submission, the first fetch) before the \<open>k\<close> rounds of the
  loop, and has taken \<open>2000 * k\<close> milliseconds and the time of its \<open>3 + k\<close>
  exchanges.
\<close>

theorem generateLyrics_waits_for_complete:
  "(generateLyrics u prompt this w = Some (Inr l', w') \<longrightarrow> l_status l' = Some ''complete'') \<and>
   (no_complete u \<longrightarrow> generateLyrics u prompt this w \<noteq> Some (Inr l', w')) \<and>
   (l_status l = Some ''complete'' \<longrightarrow> lyrics_poll u this g l w = Some (Inr l, w)) \<and>
   (never_complete u \<and> l_status l \<noteq> Some ''complete'' \<and> client (heap w this) = Some c \<longrightarrow>
      lyrics_poll u this g l w = None) \<and>
   (never_complete u \<and> keepAlive u False this w = (Inr v, w1) \<and> client (heap w1 this) = Some c \<and>
      (\<forall>n t. \<exists>i. ep_lyrics_post u n c t prompt = Reply i) \<longrightarrow>
      generateLyrics u prompt this w = None) \<and>
   (lyrics_poll u this g l w = Some (r, w') \<and> client (heap w this) = Some c \<longrightarrow>
      (\<exists>k. trace w' = trace w @ concat (replicate k [Slept 2000, Http c (LyricsGet g)]) \<and>
           ticks w' = ticks w + k \<and>
           clock w' = clock w + (\<Sum>i<k. 2000 + latency u (ticks w + i)))) \<and>
   (generateLyrics u prompt this w = Some (Inr l', w') \<longrightarrow>
      (\<exists>k. ticks w' = ticks w + 3 + k \<and>
           clock w' = clock w + 2000 * k + (\<Sum>i<3 + k. latency u (ticks w + i))))"
proof (intro conjI impI)
  assume "generateLyrics u prompt this w = Some (Inr l', w')"
  then show "l_status l' = Some ''complete''" by (rule generateLyrics_complete)
next
  assume "no_complete u"
  then show "generateLyrics u prompt this w \<noteq> Some (Inr l', w')" by (rule generateLyrics_no_value)
next
  assume "l_status l = Some ''complete''"
  then show "lyrics_poll u this g l w = Some (Inr l, w)" by (subst lyrics_poll.simps) simp
next
  assume a: "never_complete u \<and> l_status l \<noteq> Some ''complete'' \<and> client (heap w this) = Some c"
  show "lyrics_poll u this g l w = None"
  proof (cases "lyrics_poll u this g l w")
    case (Some y)
    from lyrics_poll_diverges [OF this] a show ?thesis by simp
  qed simp
next
  assume "never_complete u \<and> keepAlive u False this w = (Inr v, w1) \<and> client (heap w1 this) = Some c \<and>
      (\<forall>n t. \<exists>i. ep_lyrics_post u n c t prompt = Reply i)"
  then show "generateLyrics u prompt this w = None" by (blast intro: generateLyrics_diverges)
next
  assume a: "lyrics_poll u this g l w = Some (r, w') \<and> client (heap w this) = Some c"
  then have "lyrics_poll u this g l w = Some (r, w')" and c: "client (heap w this) = Some c" by simp_all
  from lyrics_poll_clock [OF this(1)] c
  show "\<exists>k. trace w' = trace w @ concat (replicate k [Slept 2000, Http c (LyricsGet g)]) \<and>
           ticks w' = ticks w + k \<and>
           clock w' = clock w + (\<Sum>i<k. 2000 + latency u (ticks w + i))" by simp
next
  assume "generateLyrics u prompt this w = Some (Inr l', w')"
  then show "\<exists>k. ticks w' = ticks w + 3 + k \<and>
           clock w' = clock w + 2000 * k + (\<Sum>i<3 + k. latency u (ticks w + i))"
    by (rule generateLyrics_clock)
qed

theorem generateLyrics_waits_for_complete_witness:
  "fst (the (generateLyrics drafting ''hi'' 0 (live []))) =
     Inr \<lparr>l_status = Some ''complete'', l_title = None, l_text = None\<rparr> \<and>
   trace (snd (the (generateLyrics drafting ''hi'' 0 (live [])))) =
     trace (live []) @
       [Http ''A'' (ClerkTokens ''sess'' (Some ''5.0'')), Http ''A'' (LyricsPost ''hi''),
        Http ''A'' (LyricsGet ''L1''),
        Slept 2000, Http ''A'' (LyricsGet ''L1''),
        Slept 2000, Http ''A'' (LyricsGet ''L1''),
        Slept 2000, Http ''A'' (LyricsGet ''L1'')] \<and>
   ticks (snd (the (generateLyrics drafting ''hi'' 0 (live [])))) = ticks (live []) + 3 + 3 \<and>
   clock (snd (the (generateLyrics drafting ''hi'' 0 (live [])))) =
     clock (live []) + 2000 * 3 + 300 * 6 \<and>
   generateLyrics writers_block ''hi'' 0 (live []) = None"
proof -
  let ?g = "generateLyrics drafting ''hi'' 0 (live [])"
  have nc: "never_complete writers_block"
    by (simp add: never_complete_def writers_block_def service_defs)
  have k: "keepAlive writers_block False 0 (live []) =
      (Inr (), snd (keepAlive writers_block False 0 (live [])))"
    by (rule pair_fst)
      (simp add: keepAlive_def exchange_def writers_block_def service_defs live_fields Let_def)
  have c: "client (heap (snd (keepAlive writers_block False 0 (live []))) 0) = Some ''A''"
    by (simp add: keepAlive_def exchange_def writers_block_def service_defs live_fields Let_def)
  have p: "\<forall>n t. \<exists>i. ep_lyrics_post writers_block n ''A'' t ''hi'' = Reply i"
    by (simp add: writers_block_def service_defs)
  have wb: "generateLyrics writers_block ''hi'' 0 (live []) = None"
    using generateLyrics_waits_for_complete
      [where u = writers_block and prompt = "''hi''" and this = 0 and w = "live []" and v = "()"
         and ?w1.0 = "snd (keepAlive writers_block False 0 (live []))" and c = "''A''"]
      nc k c p by blast
  have f: "fst (the ?g) = Inr \<lparr>l_status = Some ''complete'', l_title = None, l_text = None\<rparr>"
    by (simp add: generateLyrics_def keepAlive_def exchange_def sleep_def lyrics_poll.simps
        drafting_def service_defs live_fields Let_def bearer_def)
  have tr: "trace (snd (the ?g)) =
     trace (live []) @
       [Http ''A'' (ClerkTokens ''sess'' (Some ''5.0'')), Http ''A'' (LyricsPost ''hi''),
        Http ''A'' (LyricsGet ''L1''),
        Slept 2000, Http ''A'' (LyricsGet ''L1''),
        Slept 2000, Http ''A'' (LyricsGet ''L1''),
        Slept 2000, Http ''A'' (LyricsGet ''L1'')]"
    by (simp add: generateLyrics_def keepAlive_def exchange_def sleep_def lyrics_poll.simps
        drafting_def service_defs live_fields Let_def bearer_def)
  have sm: "?g \<noteq> None"
    by (simp add: generateLyrics_def keepAlive_def exchange_def sleep_def lyrics_poll.simps
        drafting_def service_defs live_fields Let_def bearer_def)
  then have ge: "?g = Some (Inr \<lparr>l_status = Some ''complete'', l_title = None, l_text = None\<rparr>,
      snd (the ?g))"
    using f by (cases ?g) (auto intro: pair_fst)
  from generateLyrics_waits_for_complete
      [where u = drafting and prompt = "''hi''" and this = 0 and w = "live []"
         and l' = "\<lparr>l_status = Some ''complete'', l_title = None, l_text = None\<rparr>"
         and w' = "snd (the ?g)"] ge
  obtain k where tk: "ticks (snd (the ?g)) = ticks (live []) + 3 + k"
    and ck: "clock (snd (the ?g)) = clock (live []) + 2000 * k + (\<Sum>i<3 + k. latency drafting (ticks (live []) + i))"
    by blast
  have t9: "ticks (snd (the ?g)) = 9"
    by (simp add: generateLyrics_def keepAlive_def exchange_def sleep_def lyrics_poll.simps
        drafting_def service_defs live_fields Let_def bearer_def)
  with tk have k3: "k = 3" by (simp add: live_fields)
  have lat: "latency drafting n = 300" for n by (simp add: drafting_def service_defs)
  have "clock (snd (the ?g)) = clock (live []) + 2000 * 3 + 300 * 6"
    using ck unfolding k3 lat by simp
  moreover have "ticks (snd (the ?g)) = ticks (live []) + 3 + 3" using tk k3 by simp
  ultimately show ?thesis using wb f tr by simp
qed

section \<open>Failover: what a call may write\<close>

lemma exchange_same:
  "exchange u t c rq ep w = (x, w') \<Longrightarrow>
     heap w' = heap w \<and> fresh w' = fresh w \<and> store_keys w' = store_keys w \<and>
     store_active w' = store_active w \<and> store_writes w' = store_writes w \<and>
     sunoApi w' = sunoApi w \<and> activeSunoLicense w' = activeSunoLicense w"
  by (auto simp: exchange_def Let_def split: option.splits if_splits)

lemma getClerkLatestVersion_same:
  assumes "getClerkLatestVersion u this w = (x, w')"
  shows "fresh w' = fresh w \<and> store_keys w' = store_keys w \<and>
     store_active w' = store_active w \<and> store_writes w' = store_writes w \<and>
     sunoApi w' = sunoApi w \<and> activeSunoLicense w' = activeSunoLicense w \<and>
     (\<forall>r. r \<noteq> this \<longrightarrow> heap w' r = heap w r) \<and>
     client (heap w' this) = client (heap w this) \<and> wrapped (heap w' this) = wrapped (heap w this)"
  using assms
  by (auto simp: getClerkLatestVersion_def split: option.splits prod.splits reply.splits if_splits
      dest!: exchange_same)

lemma getAuthToken_same:
  assumes "getAuthToken u this w = (x, w')"
  shows "fresh w' = fresh w \<and> store_keys w' = store_keys w \<and>
     store_active w' = store_active w \<and> store_writes w' = store_writes w \<and>
     sunoApi w' = sunoApi w \<and> activeSunoLicense w' = activeSunoLicense w \<and>
     (\<forall>r. r \<noteq> this \<longrightarrow> heap w' r = heap w r) \<and>
     client (heap w' this) = client (heap w this) \<and> wrapped (heap w' this) = wrapped (heap w this)"
  using assms
  by (auto simp: getAuthToken_def Let_def split: option.splits prod.splits reply.splits if_splits
      dest!: exchange_same)

lemma init_same:
  assumes "init u c this w = (x, w')"
  shows "fresh w' = fresh w \<and> store_keys w' = store_keys w \<and>
     store_active w' = store_active w \<and> store_writes w' = store_writes w \<and>
     sunoApi w' = sunoApi w \<and> activeSunoLicense w' = activeSunoLicense w \<and>
     (\<forall>r. r \<noteq> this \<longrightarrow> heap w' r = heap w r) \<and> client (heap w' this) = Some c"
proof -
  let ?w1 = "(setupBindings this w)\<lparr>heap := (heap (setupBindings this w))
      (this := (heap (setupBindings this w) this)\<lparr>client := Some c\<rparr>)\<rparr>"
  obtain x2 w2 where a: "getClerkLatestVersion u this ?w1 = (x2, w2)"
    by (cases "getClerkLatestVersion u this ?w1")
  obtain x3 w3 where b: "getAuthToken u this w2 = (x3, w3)" by (cases "getAuthToken u this w2")
  obtain x4 w4 where k: "keepAlive u False this w3 = (x4, w4)" by (cases "keepAlive u False this w3")
  have f1: "fresh ?w1 = fresh w \<and> store_keys ?w1 = store_keys w \<and>
     store_active ?w1 = store_active w \<and> store_writes ?w1 = store_writes w \<and>
     sunoApi ?w1 = sunoApi w \<and> activeSunoLicense ?w1 = activeSunoLicense w \<and>
     (\<forall>r. r \<noteq> this \<longrightarrow> heap ?w1 r = heap w r) \<and> client (heap ?w1 this) = Some c"
    by (simp add: setupBindings_def)
  note f2 = getClerkLatestVersion_same [OF a]
  note f3 = getAuthToken_same [OF b]
  have f4: "fresh w4 = fresh w3 \<and> store_keys w4 = store_keys w3 \<and>
     store_active w4 = store_active w3 \<and> store_writes w4 = store_writes w3 \<and>
     sunoApi w4 = sunoApi w3 \<and> activeSunoLicense w4 = activeSunoLicense w3 \<and>
     (\<forall>r. r \<noteq> this \<longrightarrow> heap w4 r = heap w3 r) \<and> client (heap w4 this) = client (heap w3 this)"
    using keepAlive_renews [OF k] by (simp add: renews_def)
  have "w' = w2 \<or> w' = w3 \<or> w' = w4"
    using assms a b k by (auto simp: init_def Let_def split: sum.splits)
  then show ?thesis using f1 f2 f3 f4 by auto
qed

lemma newSunoApi_store:
  assumes "newSunoApi u c w = (x, w')"
  shows "store_keys w' = store_keys w \<and> store_active w' = store_active w \<and>
         store_writes w' = store_writes w \<and> sunoApi w' = sunoApi w \<and> fresh w \<le> fresh w' \<and>
         (\<forall>r. r < fresh w \<longrightarrow> heap w' r = heap w r)"
proof (cases "c = []")
  case False
  with assms have i: "init u c (fresh w) (snd (new_SunoApi w)) = (x, w')"
    by (simp add: newSunoApi_def new_SunoApi_def)
  from init_same [OF i] show ?thesis by (auto simp: new_SunoApi_def)
next
  case True
  show ?thesis
  proof (cases "store_active w")
    case None
    with assms True show ?thesis by (auto simp: newSunoApi_def getSunoActiveLicense_def)
  next
    case (Some lic)
    let ?w2 = "(snd (getSunoActiveLicense w))\<lparr>activeSunoLicense := Some lic\<rparr>"
    from assms True Some have i: "init u (licenseKey lic) (fresh ?w2) (snd (new_SunoApi ?w2)) = (x, w')"
      by (simp add: newSunoApi_def new_SunoApi_def getSunoActiveLicense_def)
    from init_same [OF i] show ?thesis by (auto simp: new_SunoApi_def getSunoActiveLicense_def)
  qed
qed






lemmas guard_defs = method_defs session_defs service_defs live_fields Let_def numeral_2_eq_2
  numeral_3_eq_3



section \<open>Failover: no candidate is good\<close>

lemma getClerkLatestVersion_accepts:
  assumes "client (heap w r) = Some c" and "accepts u c"
  shows "\<exists>w'. getClerkLatestVersion u r w = (Inr (), w')"
proof -
  from assms(2) obtain v where "ep_clerk_js u (ticks w) c = Reply (Some v)" "v \<noteq> []"
    unfolding accepts_def by blast
  with assms(1) show ?thesis
    by (simp add: getClerkLatestVersion_def exchange_def Let_def)
qed

lemma getAuthToken_accepts:
  assumes "client (heap w r) = Some c" and "accepts u c"
  shows "\<exists>w'. getAuthToken u r w = (Inr (), w') \<and> truthy (sid (heap w' r))"
proof -
  from assms(2) obtain s where
    "ep_client u (ticks w) c (clerkVersion (heap w r)) = Reply (Some s)" "s \<noteq> []"
    unfolding accepts_def by blast
  with assms(1) show ?thesis
    by (simp add: getAuthToken_def exchange_def Let_def)
qed

lemma keepAlive_accepts:
  assumes "client (heap w r) = Some c" and "truthy (sid (heap w r))" and "accepts u c"
  shows "\<exists>w'. keepAlive u b r w = (Inr (), w')"
proof -
  from assms(2) obtain s where s: "sid (heap w r) = Some s" "s \<noteq> []"
    by (cases "sid (heap w r)") auto
  from assms(3) obtain t where
    "ep_tokens u (ticks w) c s (clerkVersion (heap w r)) = Reply t"
    unfolding accepts_def by blast
  with assms(1) s show ?thesis
    by (simp add: keepAlive_def exchange_def Let_def)
qed

lemma get_credits_answers:
  assumes c: "client (heap w r) = Some c" and s: "truthy (sid (heap w r))" and a: "accepts u c"
    and p: "\<forall>n t. \<exists>b. ep_billing u n c t = Reply b \<and> P (total_credits_left b)"
  shows "\<exists>cr w'. get_credits u False r w = (Inr cr, w') \<and> P (credits_left cr)"
proof -
  from keepAlive_accepts [OF c s a] obtain w1 where k: "keepAlive u False r w = (Inr (), w1)" by blast
  have c1: "client (heap w1 r) = Some c" using keepAlive_renews [OF k] c by (simp add: renews_def)
  from p obtain b where "ep_billing u (ticks w1) c (bearer (heap w1 r)) = Reply b"
    "P (total_credits_left b)" by blast
  with k c1 show ?thesis by (simp add: get_credits_def exchange_def Let_def)
qed

lemma newSunoApi_accepts:
  assumes a: "accepts u c" and ne: "c \<noteq> []"
  shows "\<exists>w'. newSunoApi u c w = (Inr (fresh w), w') \<and> client (heap w' (fresh w)) = Some c \<and>
           truthy (sid (heap w' (fresh w))) \<and> (\<forall>m. wrapped (heap w' (fresh w)) m) \<and>
           fresh w' = Suc (fresh w) \<and> activeSunoLicense w' = activeSunoLicense w"
proof -
  let ?r = "fresh w"
  let ?w0 = "snd (new_SunoApi w)"
  let ?w1 = "(setupBindings ?r ?w0)\<lparr>heap := (heap (setupBindings ?r ?w0))
      (?r := (heap (setupBindings ?r ?w0) ?r)\<lparr>client := Some c\<rparr>)\<rparr>"
  have c1: "client (heap ?w1 ?r) = Some c" by simp
  from getClerkLatestVersion_accepts [OF c1 a] obtain w2 where
    v: "getClerkLatestVersion u ?r ?w1 = (Inr (), w2)" by blast
  have c2: "client (heap w2 ?r) = Some c" using getClerkLatestVersion_same [OF v] by simp
  from getAuthToken_accepts [OF c2 a] obtain w3 where
    t: "getAuthToken u ?r w2 = (Inr (), w3)" and s3: "truthy (sid (heap w3 ?r))" by blast
  have c3: "client (heap w3 ?r) = Some c" using getAuthToken_same [OF t] c2 by simp
  from keepAlive_accepts [OF c3 s3 a] obtain w4 where
    k: "keepAlive u False ?r w3 = (Inr (), w4)" by blast
  have i: "init u c ?r ?w0 = (Inr ?r, w4)" using v t k by (simp add: init_def Let_def)
  have n: "newSunoApi u c w = (Inr ?r, w4)" using i ne by (simp add: newSunoApi_def new_SunoApi_def)
  have "truthy (sid (heap w4 ?r))" using keepAlive_renews [OF k] s3 by (simp add: renews_def)
  moreover have "\<forall>m. wrapped (heap w4 ?r) m" using init_wrapped [OF i] by simp
  moreover have "client (heap w4 ?r) = Some c \<and> fresh w4 = Suc (fresh w) \<and>
      activeSunoLicense w4 = activeSunoLicense w"
    using init_same [OF i] by (simp add: new_SunoApi_def)
  ultimately show ?thesis using n by simp
qed

lemma candidate_probe:
  assumes a: "accepts u (licenseKey lic)" and ne: "licenseKey lic \<noteq> []"
    and p: "\<forall>n t. \<exists>b. ep_billing u n (licenseKey lic) t = Reply b \<and> P (total_credits_left b)"
  shows "\<exists>w1 cr w2. newSunoApi u (licenseKey lic) w = (Inr (fresh w), w1) \<and>
           get_credits u False (fresh w) (w1\<lparr>sunoApi := Some (fresh w)\<rparr>) = (Inr cr, w2) \<and>
           P (credits_left cr) \<and> store_writes w2 = store_writes w \<and>
           store_active w2 = store_active w \<and> store_keys w2 = store_keys w \<and>
           activeSunoLicense w2 = activeSunoLicense w \<and> fresh w2 = Suc (fresh w) \<and>
           (\<forall>r. r < fresh w \<longrightarrow> heap w2 r = heap w r) \<and>
           client (heap w2 (fresh w)) = Some (licenseKey lic) \<and>
           truthy (sid (heap w2 (fresh w))) \<and> (\<forall>m. wrapped (heap w2 (fresh w)) m) \<and>
           sunoApi w2 = Some (fresh w)"
proof -
  let ?r = "fresh w"
  from newSunoApi_accepts [OF a ne, of w] obtain w1 where
    n: "newSunoApi u (licenseKey lic) w = (Inr ?r, w1)"
    and c1: "client (heap w1 ?r) = Some (licenseKey lic)" and s1: "truthy (sid (heap w1 ?r))"
    and b1: "\<forall>m. wrapped (heap w1 ?r) m" and f1: "fresh w1 = Suc ?r"
    and l1: "activeSunoLicense w1 = activeSunoLicense w" by blast
  note st = newSunoApi_store [OF n]
  let ?w1 = "w1\<lparr>sunoApi := Some ?r\<rparr>"
  have c1': "client (heap ?w1 ?r) = Some (licenseKey lic)" and s1': "truthy (sid (heap ?w1 ?r))"
    using c1 s1 by simp_all
  from get_credits_answers [OF c1' s1' a p] obtain cr w2 where
    q: "get_credits u False ?r ?w1 = (Inr cr, w2)" and pc: "P (credits_left cr)" by blast
  note r = get_credits_renews [OF q, unfolded renews_def]
  have "store_writes w2 = store_writes w \<and> store_active w2 = store_active w \<and>
        store_keys w2 = store_keys w \<and> activeSunoLicense w2 = activeSunoLicense w \<and>
        fresh w2 = Suc ?r \<and> sunoApi w2 = Some ?r"
    using r st f1 l1 by simp
  moreover have "\<forall>x. x < ?r \<longrightarrow> heap w2 x = heap w x"
    using r st by simp
  moreover have "client (heap w2 ?r) = Some (licenseKey lic) \<and> truthy (sid (heap w2 ?r)) \<and>
      (\<forall>m. wrapped (heap w2 ?r) m)"
    using r c1 s1 b1 by simp
  ultimately show ?thesis using n q pc by blast
qed

lemma for_licKeys_none_viable:
  assumes "\<forall>lic \<in> set lics. licenseKey lic \<noteq> [] \<and> accepts u (licenseKey lic) \<and> lacking u (licenseKey lic)"
    and "activeSunoLicense w \<noteq> None" and "this < fresh w"
  shows "\<exists>w'. for_licKeys n u mth this lics w = proto u mth this w' \<and>
           store_writes w' = store_writes w \<and> store_active w' = store_active w \<and>
           heap w' this = heap w this \<and> fresh w' = fresh w + length lics"
  using assms
proof (induction lics arbitrary: w)
  case Nil
  then show ?case by auto
next
  case (Cons lic rest)
  have a: "accepts u (licenseKey lic)" and ne: "licenseKey lic \<noteq> []"
    and p: "\<forall>n t. \<exists>b. ep_billing u n (licenseKey lic) t = Reply b \<and> \<not> js_ge (total_credits_left b) 10"
    using Cons.prems(1) by (simp_all add: lacking_def)
  from candidate_probe [OF a ne p, of w] obtain w1 cr w2 where
    n: "newSunoApi u (licenseKey lic) w = (Inr (fresh w), w1)"
    and q: "get_credits u False (fresh w) (w1\<lparr>sunoApi := Some (fresh w)\<rparr>) = (Inr cr, w2)"
    and nv: "\<not> js_ge (credits_left cr) 10"
    and fr: "store_writes w2 = store_writes w" "store_active w2 = store_active w"
      "activeSunoLicense w2 = activeSunoLicense w" "fresh w2 = Suc (fresh w)"
      "\<forall>r. r < fresh w \<longrightarrow> heap w2 r = heap w r"
    by blast
  have step: "for_licKeys n u mth this (lic # rest) w = for_licKeys n u mth this rest w2"
    using n q nv by simp
  have "\<exists>w'. for_licKeys n u mth this rest w2 = proto u mth this w' \<and>
           store_writes w' = store_writes w2 \<and> store_active w' = store_active w2 \<and>
           heap w' this = heap w2 this \<and> fresh w' = fresh w2 + length rest"
    using Cons.prems fr by (intro Cons.IH) simp_all
  then obtain w' where "for_licKeys n u mth this rest w2 = proto u mth this w'"
    "store_writes w' = store_writes w2" "store_active w' = store_active w2"
    "heap w' this = heap w2 this" "fresh w' = fresh w2 + length rest" by blast
  with step fr Cons.prems(3) have "for_licKeys n u mth this (lic # rest) w = proto u mth this w' \<and>
           store_writes w' = store_writes w \<and> store_active w' = store_active w \<and>
           heap w' this = heap w this \<and> fresh w' = fresh w + length (lic # rest)" by simp
  then show ?case by blast
qed

lemma for_licKeys_reaches:
  assumes "\<forall>l \<in> set pre. licenseKey l \<noteq> [] \<and> accepts u (licenseKey l) \<and> lacking u (licenseKey l)"
  shows "\<exists>wk. for_licKeys n u mth this (pre @ rest) w = for_licKeys n u mth this rest wk \<and>
           store_writes wk = store_writes w \<and> store_active wk = store_active w \<and>
           fresh wk = fresh w + length pre"
  using assms
proof (induction pre arbitrary: w)
  case Nil
  then show ?case by auto
next
  case (Cons l ls)
  have a: "accepts u (licenseKey l)" and ne: "licenseKey l \<noteq> []"
    and p: "\<forall>n t. \<exists>b. ep_billing u n (licenseKey l) t = Reply b \<and> \<not> js_ge (total_credits_left b) 10"
    using Cons.prems by (simp_all add: lacking_def)
  from candidate_probe [OF a ne p, of w] obtain w1 cr w2 where
    n: "newSunoApi u (licenseKey l) w = (Inr (fresh w), w1)"
    and q: "get_credits u False (fresh w) (w1\<lparr>sunoApi := Some (fresh w)\<rparr>) = (Inr cr, w2)"
    and nv: "\<not> js_ge (credits_left cr) 10"
    and fr: "store_writes w2 = store_writes w" "store_active w2 = store_active w"
      "fresh w2 = Suc (fresh w)"
    by blast
  have step: "for_licKeys n u mth this ((l # ls) @ rest) w = for_licKeys n u mth this (ls @ rest) w2"
    using n q nv by simp
  from Cons.prems have "\<forall>l \<in> set ls. licenseKey l \<noteq> [] \<and> accepts u (licenseKey l) \<and> lacking u (licenseKey l)"
    by simp
  from Cons.IH [OF this, of w2] obtain wk where
    "for_licKeys n u mth this (ls @ rest) w2 = for_licKeys n u mth this rest wk"
    "store_writes wk = store_writes w2" "store_active wk = store_active w2"
    "fresh wk = fresh w2 + length ls" by blast
  with step fr have "for_licKeys n u mth this ((l # ls) @ rest) w = for_licKeys n u mth this rest wk \<and>
      store_writes wk = store_writes w \<and> store_active wk = store_active w \<and>
      fresh wk = fresh w + length (l # ls)" by simp
  then show ?case by blast
qed

lemma candidate_init_fails:
  assumes "newSunoApi u (licenseKey lic) w = (Inl e, w')"
  shows "for_licKeys n u mth this (lic # rest) w = Some (Inl e, w') \<and>
         store_writes w' = store_writes w \<and> store_active w' = store_active w"
  using assms newSunoApi_store [OF assms] by simp

lemma candidate_quota_fails:
  assumes "newSunoApi u (licenseKey lic) w = (Inr api, wa)"
    and "get_credits u False api (wa\<lparr>sunoApi := Some api\<rparr>) = (Inl e, w')"
  shows "for_licKeys n u mth this (lic # rest) w = Some (Inl e, w') \<and>
         store_writes w' = store_writes w \<and> store_active w' = store_active w"
  using assms newSunoApi_store [OF assms(1)] get_credits_renews [OF assms(2), unfolded renews_def]
  by simp

lemma guard_candidate_fails:
  assumes "get_credits u False this w = (Inr cr, w1)" and "js_lt (credits_left cr) 10"
    and "store_keys w = pre @ lic # post"
    and "\<forall>l \<in> set pre. licenseKey l \<noteq> [] \<and> accepts u (licenseKey l) \<and> lacking u (licenseKey l)"
  shows "\<exists>wk. licenseCheckDecorator (Suc n) u mth this w = for_licKeys n u mth this (lic # post) wk \<and>
           store_writes wk = store_writes w \<and> store_active wk = store_active w \<and>
           fresh wk = fresh w + length pre \<and>
           (\<forall>e w'. newSunoApi u (licenseKey lic) wk = (Inl e, w') \<longrightarrow>
              licenseCheckDecorator (Suc n) u mth this w = Some (Inl e, w') \<and>
              store_writes w' = store_writes w \<and> store_active w' = store_active w) \<and>
           (\<forall>api wa e w'. newSunoApi u (licenseKey lic) wk = (Inr api, wa) \<and>
                get_credits u False api (wa\<lparr>sunoApi := Some api\<rparr>) = (Inl e, w') \<longrightarrow>
              licenseCheckDecorator (Suc n) u mth this w = Some (Inl e, w') \<and>
              store_writes w' = store_writes w \<and> store_active w' = store_active w)"
proof -
  note r = get_credits_renews [OF assms(1), unfolded renews_def]
  let ?w2 = "snd (getSunoLicenseKeys w1)"
  have g: "licenseCheckDecorator (Suc n) u mth this w = for_licKeys n u mth this (pre @ lic # post) ?w2"
    using assms(1,2,3) r by (simp add: getSunoLicenseKeys_def)
  have w2: "store_writes ?w2 = store_writes w" "store_active ?w2 = store_active w"
    "fresh ?w2 = fresh w"
    using r by (simp_all add: getSunoLicenseKeys_def)
  from for_licKeys_reaches [OF assms(4), of n mth this "lic # post" ?w2] obtain wk where
    k: "for_licKeys n u mth this (pre @ lic # post) ?w2 = for_licKeys n u mth this (lic # post) wk"
    and f: "store_writes wk = store_writes ?w2" "store_active wk = store_active ?w2"
      "fresh wk = fresh ?w2 + length pre" by blast
  have e: "licenseCheckDecorator (Suc n) u mth this w = for_licKeys n u mth this (lic # post) wk"
    using g k by simp
  have i: "licenseCheckDecorator (Suc n) u mth this w = Some (Inl e', w') \<and>
              store_writes w' = store_writes w \<and> store_active w' = store_active w"
    if "newSunoApi u (licenseKey lic) wk = (Inl e', w')" for e' w'
    using candidate_init_fails [OF that, of n mth this post] e f w2 by simp
  have q: "licenseCheckDecorator (Suc n) u mth this w = Some (Inl e', w') \<and>
              store_writes w' = store_writes w \<and> store_active w' = store_active w"
    if "newSunoApi u (licenseKey lic) wk = (Inr api, wa)"
      "get_credits u False api (wa\<lparr>sunoApi := Some api\<rparr>) = (Inl e', w')" for api wa e' w'
    using candidate_quota_fails [OF that, of n mth this post] e f w2 by simp
  have fk: "store_writes wk = store_writes w" "store_active wk = store_active w"
    "fresh wk = fresh w + length pre" using f w2 by simp_all
  show ?thesis
  proof (intro exI [of _ wk] conjI allI impI)
    show "licenseCheckDecorator (Suc n) u mth this w = for_licKeys n u mth this (lic # post) wk"
      by (rule e)
  qed (use fk i q in \<open>blast+\<close>)
qed

lemma get_credits_rejected:
  assumes c: "client (heap w r) = Some c" and s: "truthy (sid (heap w r))" and a: "accepts u c"
    and p: "\<forall>n t. ep_billing u n c t = Rejected"
  shows "\<exists>w'. get_credits u False r w = (Inl AxiosError, w')"
proof -
  from keepAlive_accepts [OF c s a] obtain w1 where k: "keepAlive u False r w = (Inr (), w1)" by blast
  have c1: "client (heap w1 r) = Some c" using keepAlive_renews [OF k] c by (simp add: renews_def)
  from p have "ep_billing u (ticks w1) c (bearer (heap w1 r)) = Rejected" by blast
  with k c1 show ?thesis by (simp add: get_credits_def exchange_def Let_def)
qed

text \<open>
  C3, as the code has it. The quota of the session the call is made on is below 10.
  When every candidate of the sheet has a key that is not empty, initialises and
  answers its quota query, each with less than 10 (or with no number), when the
  module's \<^verbatim>\<open>activeSunoLicense\<close> is set, as it is once the module is loaded, and the
  session is one that was created before the call, then nothing is thrown for the lack
  of a good candidate: the call is the method itself on the session it was called on,
  as the quota query left it, in a world where one session per candidate was created
  and nothing was written to the sheet. And a candidate that fails ends the call: when
  the candidates before \<open>lic\<close> are of that kind, the loop comes to \<open>lic\<close> in a world
  \<open>wk\<close> reached without a write to the sheet, after one session per earlier candidate;
  if the initialisation of \<open>lic\<close> fails there with an error, or its quota query does,
  the guarded call ends with that error in the world the failed step left: the method
  is not invoked, on no session, and nothing is written to the sheet.
\<close>

theorem guard_falls_back_to_original_session:
  assumes "get_credits u False this w = (Inr cr, w1)" and "js_lt (credits_left cr) 10"
  shows "((\<forall>lic \<in> set (store_keys w).
             licenseKey lic \<noteq> [] \<and> accepts u (licenseKey lic) \<and> lacking u (licenseKey lic)) \<and>
          activeSunoLicense w \<noteq> None \<and> this < fresh w \<longrightarrow>
          (\<exists>w'. licenseCheckDecorator (Suc n) u mth this w = proto u mth this w' \<and>
             store_writes w' = store_writes w \<and> store_active w' = store_active w \<and>
             heap w' this = heap w1 this \<and> fresh w' = fresh w + length (store_keys w))) \<and>
         (store_keys w = pre @ lic # post \<and>
          (\<forall>l \<in> set pre. licenseKey l \<noteq> [] \<and> accepts u (licenseKey l) \<and> lacking u (licenseKey l)) \<longrightarrow>
          (\<exists>wk. licenseCheckDecorator (Suc n) u mth this w = for_licKeys n u mth this (lic # post) wk \<and>
             store_writes wk = store_writes w \<and> store_active wk = store_active w \<and>
             fresh wk = fresh w + length pre \<and>
             (\<forall>e w'. newSunoApi u (licenseKey lic) wk = (Inl e, w') \<longrightarrow>
                licenseCheckDecorator (Suc n) u mth this w = Some (Inl e, w') \<and>
                store_writes w' = store_writes w \<and> store_active w' = store_active w) \<and>
             (\<forall>api wa e w'. newSunoApi u (licenseKey lic) wk = (Inr api, wa) \<and>
                  get_credits u False api (wa\<lparr>sunoApi := Some api\<rparr>) = (Inl e, w') \<longrightarrow>
                licenseCheckDecorator (Suc n) u mth this w = Some (Inl e, w') \<and>
                store_writes w' = store_writes w \<and> store_active w' = store_active w)))"
proof (intro conjI impI)
  assume h: "(\<forall>lic \<in> set (store_keys w).
             licenseKey lic \<noteq> [] \<and> accepts u (licenseKey lic) \<and> lacking u (licenseKey lic)) \<and>
          activeSunoLicense w \<noteq> None \<and> this < fresh w"
  note r = get_credits_renews [OF assms(1), unfolded renews_def]
  let ?w2 = "snd (getSunoLicenseKeys w1)"
  have g: "licenseCheckDecorator (Suc n) u mth this w = for_licKeys n u mth this (store_keys w) ?w2"
    using assms(1,2) r by (simp add: getSunoLicenseKeys_def)
  have w2: "store_writes ?w2 = store_writes w" "store_active ?w2 = store_active w"
    "heap ?w2 = heap w1" "fresh ?w2 = fresh w" "activeSunoLicense ?w2 = activeSunoLicense w"
    using r by (simp_all add: getSunoLicenseKeys_def)
  have "\<exists>w'. for_licKeys n u mth this (store_keys w) ?w2 = proto u mth this w' \<and>
           store_writes w' = store_writes ?w2 \<and> store_active w' = store_active ?w2 \<and>
           heap w' this = heap ?w2 this \<and> fresh w' = fresh ?w2 + length (store_keys w)"
    using h w2 by (intro for_licKeys_none_viable) simp_all
  with g w2 show "\<exists>w'. licenseCheckDecorator (Suc n) u mth this w = proto u mth this w' \<and>
             store_writes w' = store_writes w \<and> store_active w' = store_active w \<and>
             heap w' this = heap w1 this \<and> fresh w' = fresh w + length (store_keys w)"
    by simp
next
  assume h: "store_keys w = pre @ lic # post \<and>
          (\<forall>l \<in> set pre. licenseKey l \<noteq> [] \<and> accepts u (licenseKey l) \<and> lacking u (licenseKey l))"
  then have k: "store_keys w = pre @ lic # post"
    and p: "\<forall>l \<in> set pre. licenseKey l \<noteq> [] \<and> accepts u (licenseKey l) \<and> lacking u (licenseKey l)"
    by simp_all
  show "\<exists>wk. licenseCheckDecorator (Suc n) u mth this w = for_licKeys n u mth this (lic # post) wk \<and>
             store_writes wk = store_writes w \<and> store_active wk = store_active w \<and>
             fresh wk = fresh w + length pre \<and>
             (\<forall>e w'. newSunoApi u (licenseKey lic) wk = (Inl e, w') \<longrightarrow>
                licenseCheckDecorator (Suc n) u mth this w = Some (Inl e, w') \<and>
                store_writes w' = store_writes w \<and> store_active w' = store_active w) \<and>
             (\<forall>api wa e w'. newSunoApi u (licenseKey lic) wk = (Inr api, wa) \<and>
                  get_credits u False api (wa\<lparr>sunoApi := Some api\<rparr>) = (Inl e, w') \<longrightarrow>
                licenseCheckDecorator (Suc n) u mth this w = Some (Inl e, w') \<and>
                store_writes w' = store_writes w \<and> store_active w' = store_active w)"
    using assms k p by (rule guard_candidate_fails)
qed

lemma service_accepts: "c \<noteq> ''expired'' \<Longrightarrow> accepts (service q) c"
  by (simp add: accepts_def service_defs)

lemma live_quota:
  "get_credits (service q) False 0 (live ks) =
     (Inr \<lparr>credits_left = q ''A'', period = None, monthly_limit = None, monthly_usage = None\<rparr>,
      snd (get_credits (service q) False 0 (live ks)))"
  by (rule pair_fst)
    (simp add: get_credits_def keepAlive_def exchange_def live_fields service_defs Let_def)

lemma expired_rejected:
  "fst (newSunoApi (service q) ''expired'' w) =
     Inl (Error ''Failed to get session id, you may need to update the SUNO_COOKIE'')"
  by (simp add: newSunoApi_def new_SunoApi_def init_def setupBindings_def getClerkLatestVersion_def
      getAuthToken_def exchange_def service_defs Let_def)

lemma unbilled_accepts: "c \<noteq> ''expired'' \<Longrightarrow> accepts unbilled c"
  by (simp add: accepts_def unbilled_def service_defs)

lemma unbilled_quota:
  "get_credits unbilled False 0 (live ks) =
     (Inr \<lparr>credits_left = Some 5, period = None, monthly_limit = None, monthly_usage = None\<rparr>,
      snd (get_credits unbilled False 0 (live ks)))"
  by (rule pair_fst)
    (simp add: get_credits_def keepAlive_def exchange_def live_fields unbilled_def service_defs
      table_def Let_def)

theorem guard_falls_back_to_original_session_witness:
  "(\<exists>w'. licenseCheckDecorator (Suc 0) (service drained) (Call_concatenate ''clip'') 0
             (live [lic_b, lic_c]) =
           proto (service drained) (Call_concatenate ''clip'') 0 w' \<and>
         store_writes w' = [] \<and> store_active w' = Some \<lparr>account = ''a'', licenseKey = ''A''\<rparr> \<and>
         heap w' 0 = heap (snd (get_credits (service drained) False 0 (live [lic_b, lic_c]))) 0 \<and>
         fresh w' = 3) \<and>
   (\<exists>w'. licenseCheckDecorator (Suc 0) (service drained) (Call_concatenate ''clip'') 0
             (live [lic_b, lic_x]) =
           Some (Inl (Error ''Failed to get session id, you may need to update the SUNO_COOKIE''), w') \<and>
         store_writes w' = [] \<and> store_active w' = Some \<lparr>account = ''a'', licenseKey = ''A''\<rparr>) \<and>
   (\<exists>w'. licenseCheckDecorator (Suc 0) unbilled (Call_concatenate ''clip'') 0
             (live [lic_b, lic_q]) = Some (Inl AxiosError, w') \<and>
         store_writes w' = [] \<and> store_active w' = Some \<lparr>account = ''a'', licenseKey = ''A''\<rparr>)"
proof (intro conjI)
  let ?W = "live [lic_b, lic_c]"
  have low: "js_lt (credits_left \<lparr>credits_left = drained ''A'', period = None, monthly_limit = None,
      monthly_usage = None\<rparr>) 10" by (simp add: drained_def)
  have ab: "accepts (service drained) ''B''" and ac: "accepts (service drained) ''C''"
    by (rule service_accepts, simp)+
  have lb: "lacking (service drained) ''B''" and lc: "lacking (service drained) ''C''"
    by (simp_all add: lacking_def service_defs drained_def)
  have all: "(\<forall>lic \<in> set (store_keys ?W).
      licenseKey lic \<noteq> [] \<and> accepts (service drained) (licenseKey lic) \<and>
      lacking (service drained) (licenseKey lic)) \<and> activeSunoLicense ?W \<noteq> None \<and> 0 < fresh ?W"
    by (simp add: live_fields lic_b_def lic_c_def ab ac lb lc)
  from guard_falls_back_to_original_session [OF live_quota [of drained "[lic_b, lic_c]"] low,
      where n = 0 and mth = "Call_concatenate ''clip''"] all
  obtain w' where
    g: "licenseCheckDecorator (Suc 0) (service drained) (Call_concatenate ''clip'') 0 ?W =
          proto (service drained) (Call_concatenate ''clip'') 0 w'"
    and f: "store_writes w' = store_writes ?W" "store_active w' = store_active ?W"
      "heap w' 0 = heap (snd (get_credits (service drained) False 0 ?W)) 0"
      "fresh w' = fresh ?W + length (store_keys ?W)"
    by blast
  have "store_writes w' = []" using f(1) by (simp add: live_fields)
  moreover have "store_active w' = Some \<lparr>account = ''a'', licenseKey = ''A''\<rparr>"
    using f(2) by (simp add: live_fields)
  moreover have "fresh w' = 3" using f(4) by (simp add: live_fields)
  ultimately show "\<exists>w'. licenseCheckDecorator (Suc 0) (service drained) (Call_concatenate ''clip'') 0
             (live [lic_b, lic_c]) =
           proto (service drained) (Call_concatenate ''clip'') 0 w' \<and>
         store_writes w' = [] \<and> store_active w' = Some \<lparr>account = ''a'', licenseKey = ''A''\<rparr> \<and>
         heap w' 0 = heap (snd (get_credits (service drained) False 0 (live [lic_b, lic_c]))) 0 \<and>
         fresh w' = 3"
    using g f(3) by blast
next
  let ?W = "live [lic_b, lic_x]"
  let ?u = "service drained"
  have low: "js_lt (credits_left \<lparr>credits_left = drained ''A'', period = None, monthly_limit = None,
      monthly_usage = None\<rparr>) 10" by (simp add: drained_def)
  have ab: "accepts ?u ''B''" by (rule service_accepts) simp
  have lb: "lacking ?u ''B''" by (simp add: lacking_def service_defs drained_def)
  have h: "store_keys ?W = [lic_b] @ lic_x # [] \<and>
      (\<forall>l \<in> set [lic_b]. licenseKey l \<noteq> [] \<and> accepts ?u (licenseKey l) \<and> lacking ?u (licenseKey l))"
    by (simp add: live_fields lic_b_def ab lb)
  from guard_falls_back_to_original_session [OF live_quota [of drained "[lic_b, lic_x]"] low,
      where n = 0 and mth = "Call_concatenate ''clip''" and pre = "[lic_b]" and lic = lic_x
        and post = "[]"] h
  obtain wk where
    i: "\<forall>e w'. newSunoApi ?u (licenseKey lic_x) wk = (Inl e, w') \<longrightarrow>
          licenseCheckDecorator (Suc 0) ?u (Call_concatenate ''clip'') 0 ?W = Some (Inl e, w') \<and>
          store_writes w' = store_writes ?W \<and> store_active w' = store_active ?W"
    by blast
  have "newSunoApi ?u (licenseKey lic_x) wk =
      (Inl (Error ''Failed to get session id, you may need to update the SUNO_COOKIE''),
       snd (newSunoApi ?u (licenseKey lic_x) wk))"
    by (rule pair_fst) (simp add: lic_x_def expired_rejected)
  with i have "licenseCheckDecorator (Suc 0) ?u (Call_concatenate ''clip'') 0 ?W =
      Some (Inl (Error ''Failed to get session id, you may need to update the SUNO_COOKIE''),
            snd (newSunoApi ?u (licenseKey lic_x) wk)) \<and>
      store_writes (snd (newSunoApi ?u (licenseKey lic_x) wk)) = store_writes ?W \<and>
      store_active (snd (newSunoApi ?u (licenseKey lic_x) wk)) = store_active ?W"
    by blast
  moreover have "store_writes ?W = []" "store_active ?W = Some \<lparr>account = ''a'', licenseKey = ''A''\<rparr>"
    by (simp_all add: live_fields)
  ultimately show "\<exists>w'. licenseCheckDecorator (Suc 0) (service drained) (Call_concatenate ''clip'') 0
             (live [lic_b, lic_x]) =
           Some (Inl (Error ''Failed to get session id, you may need to update the SUNO_COOKIE''), w') \<and>
         store_writes w' = [] \<and> store_active w' = Some \<lparr>account = ''a'', licenseKey = ''A''\<rparr>"
    by auto
next
  let ?W = "live [lic_b, lic_q]"
  let ?u = "unbilled"
  have low: "js_lt (credits_left \<lparr>credits_left = Some 5, period = None, monthly_limit = None,
      monthly_usage = None\<rparr>) 10" by simp
  have ab: "accepts ?u ''B''" and aq: "accepts ?u ''Q''" by (rule unbilled_accepts, simp)+
  have lb: "lacking ?u ''B''" by (simp add: lacking_def unbilled_def service_defs table_def)
  have h: "store_keys ?W = [lic_b] @ lic_q # [] \<and>
      (\<forall>l \<in> set [lic_b]. licenseKey l \<noteq> [] \<and> accepts ?u (licenseKey l) \<and> lacking ?u (licenseKey l))"
    by (simp add: live_fields lic_b_def ab lb)
  from guard_falls_back_to_original_session [OF unbilled_quota [of "[lic_b, lic_q]"] low,
      where n = 0 and mth = "Call_concatenate ''clip''" and pre = "[lic_b]" and lic = lic_q
        and post = "[]"] h
  obtain wk where
    q: "\<forall>api wa e w'. newSunoApi ?u (licenseKey lic_q) wk = (Inr api, wa) \<and>
            get_credits ?u False api (wa\<lparr>sunoApi := Some api\<rparr>) = (Inl e, w') \<longrightarrow>
          licenseCheckDecorator (Suc 0) ?u (Call_concatenate ''clip'') 0 ?W = Some (Inl e, w') \<and>
          store_writes w' = store_writes ?W \<and> store_active w' = store_active ?W"
    by blast
  have kq: "licenseKey lic_q = ''Q''" by (simp add: lic_q_def)
  have ne: "''Q'' \<noteq> []" by simp
  from newSunoApi_accepts [OF aq ne, of wk] obtain wa where
    n: "newSunoApi ?u ''Q'' wk = (Inr (fresh wk), wa)"
    and c: "client (heap wa (fresh wk)) = Some ''Q''" and s: "truthy (sid (heap wa (fresh wk)))"
    by blast
  have c': "client (heap (wa\<lparr>sunoApi := Some (fresh wk)\<rparr>) (fresh wk)) = Some ''Q''"
    and s': "truthy (sid (heap (wa\<lparr>sunoApi := Some (fresh wk)\<rparr>) (fresh wk)))"
    using c s by simp_all
  have rj: "\<forall>n t. ep_billing ?u n ''Q'' t = Rejected" by (simp add: unbilled_def)
  from get_credits_rejected [OF c' s' aq rj] obtain w' where
    "get_credits ?u False (fresh wk) (wa\<lparr>sunoApi := Some (fresh wk)\<rparr>) = (Inl AxiosError, w')" by blast
  with q n kq have "licenseCheckDecorator (Suc 0) ?u (Call_concatenate ''clip'') 0 ?W =
      Some (Inl AxiosError, w') \<and>
      store_writes w' = store_writes ?W \<and> store_active w' = store_active ?W"
    by simp
  moreover have "store_writes ?W = []" "store_active ?W = Some \<lparr>account = ''a'', licenseKey = ''A''\<rparr>"
    by (simp_all add: live_fields)
  ultimately show "\<exists>w'. licenseCheckDecorator (Suc 0) unbilled (Call_concatenate ''clip'') 0
             (live [lic_b, lic_q]) = Some (Inl AxiosError, w') \<and>
         store_writes w' = [] \<and> store_active w' = Some \<lparr>account = ''a'', licenseKey = ''A''\<rparr>"
    by auto
qed

text \<open>
  C3, as the claim has it, fails when a candidate cannot be initialised: the error of
  \<^verbatim>\<open>init\<close> leaves the loop and the decorator, and the method is never invoked (the
  log ends with the two exchanges of the failed initialisation).
\<close>

theorem rejected_candidate_prevents_fallback:
  "fst (the (licenseCheckDecorator 1 (service drained)
       (Call_extendAudio ''clip'' None None None None None) 0 (live [lic_x]))) =
     Inl (Error ''Failed to get session id, you may need to update the SUNO_COOKIE'') \<and>
   trace (snd (the (licenseCheckDecorator 1 (service drained)
       (Call_extendAudio ''clip'' None None None None None) 0 (live [lic_x])))) =
     trace (live [lic_x]) @
       [Http ''A'' (ClerkTokens ''sess'' (Some ''5.0'')), Http ''A'' BillingInfo, SheetGetKeys,
        Http ''expired'' ClerkJsPackage, Http ''expired'' (ClerkClient (Some ''5.0''))]"
  by (simp add: guard_defs drained_def lic_x_def)

section \<open>Failover: the first good candidate\<close>





end
